theory Spec2Isabelle
  imports Main "HOL-Library.List_Lexorder" "HOL-Library.Product_Lexorder"
begin

section \<open>The pip installer of pvr (src/pvr/installer.py)\<close>

text \<open>
  The module fetches the simple index page of pip, extracts the links marked
  \<open>rel="internal"\<close>, keeps the wheels, picks the one with the greatest version, downloads
  it into a cache directory keyed by the SHA-256 of its URL and runs the interpreter of
  the target environment on it.

  Python strings and byte strings are modelled as \<open>string\<close>. Exceptions are values of the
  type \<open>error\<close>; a function that may raise returns \<open>error + 'a\<close>. The functions of the
  Python standard library and of the packages \<open>requests\<close> and \<open>packaging\<close> are not part
  of the repository: the small ones (\<open>posixpath\<close>, \<open>str.split\<close>, \<open>str.endswith\<close>,
  \<open>sorted\<close>) are written out, the others (\<open>urljoin\<close>, \<open>urlparse\<close>, the HTML tokenizer,
  \<open>packaging.version.parse\<close>, \<open>hashlib.sha256\<close>) are fields of a record \<open>library\<close> that
  every operation takes as a parameter.
\<close>

subsection \<open>Errors\<close>

datatype error =
    HTTPError nat
  | NoAcceptableFile
  | IndexError
  | InvalidVersion string
  | TypeError
  | FileExistsError string
  | FileNotFoundError string
  | NotADirectoryError string
  | IsADirectoryError string
  | SpawnError
  | CalledProcessError int

subsection \<open>String and path functions of the standard library\<close>

text \<open>\<open>s.endswith(suf)\<close>.\<close>

definition endswith :: "string \<Rightarrow> string \<Rightarrow> bool" where
  "endswith s suf \<longleftrightarrow> length suf \<le> length s \<and> drop (length s - length suf) s = suf"

text \<open>\<open>s.startswith(pre)\<close>.\<close>

definition startswith :: "string \<Rightarrow> string \<Rightarrow> bool" where
  "startswith s pre \<longleftrightarrow> take (length pre) s = pre"

text \<open>\<open>s.split(sep)\<close> for a separator of one character: never the empty list.\<close>

fun split_char :: "char \<Rightarrow> string \<Rightarrow> string list" where
  "split_char sep [] = [[]]"
| "split_char sep (c # cs) =
     (if c = sep then [] # split_char sep cs
      else (case split_char sep cs of
              [] \<Rightarrow> [[c]]
            | w # ws \<Rightarrow> (c # w) # ws))"

text \<open>\<open>xs[i]\<close> for \<open>i \<ge> 0\<close>: raises IndexError out of range.\<close>

definition list_index :: "'a list \<Rightarrow> nat \<Rightarrow> error + 'a" where
  "list_index xs i = (if i < length xs then Inr (xs ! i) else Inl IndexError)"

text \<open>\<open>posixpath.basename(p)\<close>: what follows the last slash.\<close>

definition basename :: "string \<Rightarrow> string" where
  "basename p = rev (takeWhile (\<lambda>c. c \<noteq> CHR ''/'') (rev p))"

text \<open>
  \<open>posixpath.dirname(p)\<close>: what precedes the last slash, with the trailing slashes
  removed unless it consists of slashes only.
\<close>

definition dirname :: "string \<Rightarrow> string" where
  "dirname p =
     (let head = rev (dropWhile (\<lambda>c. c \<noteq> CHR ''/'') (rev p))
      in if head \<noteq> [] \<and> \<not> list_all (\<lambda>c. c = CHR ''/'') head
         then rev (dropWhile (\<lambda>c. c = CHR ''/'') (rev head))
         else head)"

text \<open>
  \<open>posixpath.join(a, *p)\<close>: a component that starts with a slash discards what precedes
  it; a separator is inserted unless the path so far is empty or ends with one.
\<close>

definition join_step :: "string \<Rightarrow> string \<Rightarrow> string" where
  "join_step path b =
     (if startswith b ''/'' then b
      else if path = [] \<or> endswith path ''/'' then path @ b
      else path @ ''/'' @ b)"

definition os_path_join :: "string \<Rightarrow> string list \<Rightarrow> string" where
  "os_path_join a p = foldl join_step a p"

text \<open>
  \<open>sorted(xs, key=key, reverse=True)\<close>: CPython reverses the list, sorts it stably in
  ascending order and reverses the result, so that equal keys keep their original order.
\<close>

definition sorted_reverse :: "('a \<Rightarrow> 'k::linorder) \<Rightarrow> 'a list \<Rightarrow> 'a list" where
  "sorted_reverse key xs = rev (sort_key key (rev xs))"

subsection \<open>Candidates and the library parameters\<close>

text \<open>\<open>Candidate = namedtuple("Candidate", ["version", "url", "filename"])\<close>.\<close>

record 'v candidate =
  version :: 'v
  url :: string
  filename :: string

text \<open>
  A start tag as the HTML tokenizer reports it to \<open>handle_starttag\<close>: the tag name and
  the attributes in order; an attribute without a value has the value \<open>None\<close>.
\<close>

type_synonym attrs = "(string \<times> string option) list"
type_synonym starttag = "string \<times> attrs"

text \<open>
  The library functions taken as parameters:
  \<^item> \<open>urljoin base ref\<close> is \<open>urllib.parse.urljoin(base, ref)\<close>;
  \<open>urlparse_path u\<close> is \<open>urllib.parse.urlparse(u).path\<close>;
  \<^item> \<open>starttags text\<close> is the sequence of \<open>handle_starttag\<close> calls that
  \<open>HTMLParser.feed(text)\<close> followed by \<open>close()\<close> makes;
  \<^item> \<open>version_parse s\<close> is \<open>packaging.version.parse(s)\<close>, \<open>None\<close> when it raises
  \<open>InvalidVersion\<close>; versions are any linearly ordered type;
  \<^item> \<open>sha256_hexdigest s\<close> is \<open>hashlib.sha256(s.encode("utf8")).hexdigest()\<close>.
\<close>

record 'v library =
  urljoin :: "string \<Rightarrow> string option \<Rightarrow> string"
  urlparse_path :: "string \<Rightarrow> string"
  starttags :: "string \<Rightarrow> starttag list"
  version_parse :: "string \<Rightarrow> 'v option"
  sha256_hexdigest :: "string \<Rightarrow> string"

subsection \<open>LinkExtractor\<close>

text \<open>The parser object: its base URL and the links collected so far.\<close>

record link_extractor =
  base_url :: string
  links :: "string list"

definition LinkExtractor_init :: "string \<Rightarrow> link_extractor" where
  "LinkExtractor_init base = \<lparr>base_url = base, links = []\<rparr>"

text \<open>
  The first loop of \<open>handle_starttag\<close>: \<open>for attr, value in attrs\<close> with \<open>break\<close> at
  the first \<open>rel="internal"\<close> and \<open>return\<close> in its \<open>else\<close>.
  True when the loop leaves by \<open>break\<close>.
\<close>

fun rel_internal_loop :: "attrs \<Rightarrow> bool" where
  "rel_internal_loop [] = False"
| "rel_internal_loop ((attr, v) # rest) =
     (if attr = ''rel'' \<and> v = Some ''internal'' then True else rel_internal_loop rest)"

text \<open>The second loop: every \<open>href\<close> attribute appends its joined value.\<close>

fun href_loop :: "'v library \<Rightarrow> link_extractor \<Rightarrow> attrs \<Rightarrow> link_extractor" where
  "href_loop L self [] = self"
| "href_loop L self ((attr, v) # rest) =
     (if attr = ''href''
      then href_loop L (self\<lparr>links := links self @ [urljoin L (base_url self) v]\<rparr>) rest
      else href_loop L self rest)"

definition handle_starttag :: "'v library \<Rightarrow> link_extractor \<Rightarrow> starttag \<Rightarrow> link_extractor" where
  "handle_starttag L self t =
     (case t of (tag, attrs) \<Rightarrow>
        if tag \<noteq> ''a'' then self
        else if attrs = [] then self
        else if \<not> rel_internal_loop attrs then self
        else href_loop L self attrs)"

text \<open>\<open>parser.feed(text); parser.close()\<close>: the start tags of the text, in document order.\<close>

definition feed :: "'v library \<Rightarrow> link_extractor \<Rightarrow> string \<Rightarrow> link_extractor" where
  "feed L self text = foldl (handle_starttag L) self (starttags L text)"

text \<open>
  The extractor as the specification words it: the \<open>href\<close> values of the anchors that
  carry a \<open>rel\<close> attribute with the value \<open>internal\<close>, each joined to the base URL,
  in document order.
\<close>

definition spec_qualifies :: "starttag \<Rightarrow> bool" where
  "spec_qualifies t \<longleftrightarrow> fst t = ''a'' \<and> (''rel'', Some ''internal'') \<in> set (snd t)"

definition spec_hrefs :: "starttag \<Rightarrow> string option list" where
  "spec_hrefs t = map snd (filter (\<lambda>a. fst a = ''href'') (snd t))"

definition spec_links :: "'v library \<Rightarrow> string \<Rightarrow> starttag list \<Rightarrow> string list" where
  "spec_links L base tags =
     map (urljoin L base) (concat (map spec_hrefs (filter spec_qualifies tags)))"

subsection \<open>The world: file system, network session, processes\<close>

text \<open>
  The file system maps a path, taken verbatim as a key, to its node. The effects of a
  call are appended to a log, so that network requests, directory creations, file writes
  and process invocations can be counted.
\<close>

datatype node = File string | Dir

type_synonym filesystem = "string \<Rightarrow> node option"

datatype event =
    Get string
  | Makedirs string
  | Write string string
  | Exec "string list" "(string \<times> string) list"
  | Close

record world =
  fs :: filesystem
  log :: "event list"
  session_closed :: bool

text \<open>The response of \<open>requests\<close>: its status code and its body.\<close>

record response =
  status_code :: nat
  content :: string

text \<open>\<open>self.session.get(u)\<close> against a server \<open>net\<close>: one GET request.\<close>

definition session_get :: "(string \<Rightarrow> response) \<Rightarrow> string \<Rightarrow> world \<Rightarrow> response \<times> world" where
  "session_get net u w = (net u, w\<lparr>log := log w @ [Get u]\<rparr>)"

text \<open>
  \<open>resp.raise_for_status()\<close> of \<open>requests\<close>: raises HTTPError for the client and server
  error statuses, 400 to 599, and for no other status.
\<close>

definition raise_for_status :: "response \<Rightarrow> error + unit" where
  "raise_for_status resp =
     (if 400 \<le> status_code resp \<and> status_code resp < 600
      then Inl (HTTPError (status_code resp)) else Inr ())"

text \<open>\<open>os.path.exists(p)\<close>: true for a file and for a directory.\<close>

definition os_path_exists :: "filesystem \<Rightarrow> string \<Rightarrow> bool" where
  "os_path_exists f p \<longleftrightarrow> f p \<noteq> None"

text \<open>
  \<open>os.makedirs(d)\<close>: creates the directory together with its missing parents, which
  the model does not track one by one; raises for the empty path and for a path that
  exists.
\<close>

definition os_makedirs :: "string \<Rightarrow> world \<Rightarrow> error + world" where
  "os_makedirs d w =
     (if d = [] then Inl (FileNotFoundError d)
      else if os_path_exists (fs w) d then Inl (FileExistsError d)
      else Inr (w\<lparr>fs := (fs w)(d \<mapsto> Dir), log := log w @ [Makedirs d]\<rparr>))"

text \<open>
  \<open>with open(p, "wb") as fp: fp.write(data)\<close>: the parent must be a directory (the
  current directory when \<open>dirname p\<close> is empty) and \<open>p\<close> itself must not be one.
\<close>

definition open_write :: "string \<Rightarrow> string \<Rightarrow> world \<Rightarrow> error + world" where
  "open_write p data w =
     (if fs w p = Some Dir then Inl (IsADirectoryError p)
      else if dirname p \<noteq> [] \<and> fs w (dirname p) = None then Inl (FileNotFoundError p)
      else if dirname p \<noteq> [] \<and> fs w (dirname p) \<noteq> Some Dir then Inl (NotADirectoryError p)
      else Inr (w\<lparr>fs := (fs w)(p \<mapsto> File data), log := log w @ [Write p data]\<rparr>))"

text \<open>
  \<open>subprocess.check_call(argv, env=env, stdout=DEVNULL)\<close>: \<open>run argv env\<close> is the exit
  status of the child, \<open>None\<close> when it cannot be started.
\<close>

definition check_call ::
  "(string list \<Rightarrow> (string \<times> string) list \<Rightarrow> int option) \<Rightarrow> string list \<Rightarrow>
   (string \<times> string) list \<Rightarrow> world \<Rightarrow> (error + unit) \<times> world" where
  "check_call run argv env w =
     (let w' = w\<lparr>log := log w @ [Exec argv env]\<rparr>
      in case run argv env of
           None \<Rightarrow> (Inl SpawnError, w')
         | Some rc \<Rightarrow> if rc = 0 then (Inr (), w') else (Inl (CalledProcessError rc), w'))"

subsection \<open>PipInstaller\<close>

record installer =
  environment :: string
  cache_dir :: "string option"

text \<open>
  \<open>__init__\<close>: the value of \<open>os.path.join(cache_dir, "pip")\<close> is dropped, so the cache
  directory is the argument as it is; \<open>requests.session()\<close> opens the session.
\<close>

definition PipInstaller_init :: "string \<Rightarrow> string option \<Rightarrow> world \<Rightarrow> installer \<times> world" where
  "PipInstaller_init env cache w =
     (\<lparr>environment = env, cache_dir = cache\<rparr>, w\<lparr>session_closed := False\<rparr>)"

definition close :: "installer \<Rightarrow> world \<Rightarrow> world" where
  "close self w = w\<lparr>log := log w @ [Close], session_closed := True\<rparr>"

text \<open>\<open>__enter__\<close> returns the installer; \<open>__exit__\<close> closes and returns \<open>None\<close>.\<close>

definition enter :: "installer \<Rightarrow> installer" where
  "enter self = self"

definition exit :: "installer \<Rightarrow> world \<Rightarrow> world" where
  "exit self w = close self w"

definition default_index_url :: string where
  "default_index_url = ''https://pypi.python.org/simple/''"

text \<open>
  The loop of \<open>find\<close> over \<open>parser.links\<close>, with the list of candidates built so far.
  \<open>wheel_parts[1]\<close> raises IndexError, \<open>packaging.version.parse\<close> InvalidVersion.
\<close>

fun find_loop :: "'v library \<Rightarrow> string list \<Rightarrow> 'v candidate list \<Rightarrow> error + 'v candidate list" where
  "find_loop L [] candidates = Inr candidates"
| "find_loop L (link # rest) candidates =
     (let fname = basename (urlparse_path L link)
      in if \<not> endswith fname ''.whl'' then find_loop L rest candidates
         else (case list_index (split_char CHR ''-'' fname) 1 of
                 Inl e \<Rightarrow> Inl e
               | Inr tok \<Rightarrow>
                   (case version_parse L tok of
                      None \<Rightarrow> Inl (InvalidVersion tok)
                    | Some v \<Rightarrow>
                        find_loop L rest
                          (candidates @ [\<lparr>version = v, url = link, filename = fname\<rparr>]))))"

text \<open>
  \<open>PipInstaller.find\<close>, named \<open>find_pip\<close> here because \<open>find\<close> is a function on lists in
  HOL. The fetch of the index page is the only effect.
\<close>

definition find_pip ::
  "('v::linorder) library \<Rightarrow> (string \<Rightarrow> response) \<Rightarrow> installer \<Rightarrow> string \<Rightarrow> world \<Rightarrow>
   (error + 'v candidate) \<times> world" where
  "find_pip L net self index_url w =
     (let simple = urljoin L index_url (Some ''pip/'');
          (resp, w1) = session_get net simple w
      in case raise_for_status resp of
           Inl e \<Rightarrow> (Inl e, w1)
         | Inr _ \<Rightarrow>
             (let parser = feed L (LinkExtractor_init simple) (content resp)
              in case find_loop L (links parser) [] of
                   Inl e \<Rightarrow> (Inl e, w1)
                 | Inr candidates \<Rightarrow>
                     if candidates = [] then (Inl NoAcceptableFile, w1)
                     else (list_index (sorted_reverse version candidates) 0, w1)))"

text \<open>
  The links that \<open>find\<close> iterates over, and the test that keeps a link: the last
  segment of its path ends in \<open>.whl\<close>.
\<close>

definition index_links :: "'v library \<Rightarrow> (string \<Rightarrow> response) \<Rightarrow> string \<Rightarrow> string list" where
  "index_links L net index_url =
     (let simple = urljoin L index_url (Some ''pip/'')
      in links (feed L (LinkExtractor_init simple) (content (net simple))))"

definition is_wheel_link :: "'v library \<Rightarrow> string \<Rightarrow> bool" where
  "is_wheel_link L link \<longleftrightarrow> endswith (basename (urlparse_path L link)) ''.whl''"

text \<open>
  Eligibility as the specification words it: the filename ends in the supported suffix
  and its second hyphen-delimited token parses as a version.
\<close>

definition spec_eligible :: "'v library \<Rightarrow> string \<Rightarrow> bool" where
  "spec_eligible L link \<longleftrightarrow>
     (let fname = basename (urlparse_path L link); parts = split_char CHR ''-'' fname
      in endswith fname ''.whl'' \<and> 1 < length parts \<and> version_parse L (parts ! 1) \<noteq> None)"

text \<open>The cache key and the cache path of \<open>download\<close>.\<close>

definition cache_key :: "'v library \<Rightarrow> 'v candidate \<Rightarrow> string" where
  "cache_key L c = sha256_hexdigest L (url c)"

definition cache_path :: "'v library \<Rightarrow> string \<Rightarrow> 'v candidate \<Rightarrow> string" where
  "cache_path L root c = os_path_join root [cache_key L c, filename c]"

definition download ::
  "'v library \<Rightarrow> (string \<Rightarrow> response) \<Rightarrow> installer \<Rightarrow> 'v candidate \<Rightarrow> world \<Rightarrow>
   (error + string) \<times> world" where
  "download L net self c w =
     (case cache_dir self of
        None \<Rightarrow> (Inl TypeError, w)
      | Some root \<Rightarrow>
          (let p = cache_path L root c
           in if \<not> os_path_exists (fs w) p then
                (let (resp, w1) = session_get net (url c) w
                 in case raise_for_status resp of
                      Inl e \<Rightarrow> (Inl e, w1)
                    | Inr _ \<Rightarrow>
                        (case (if \<not> os_path_exists (fs w1) (dirname p)
                               then os_makedirs (dirname p) w1 else Inr w1) of
                           Inl e \<Rightarrow> (Inl e, w1)
                         | Inr w2 \<Rightarrow>
                             (case open_write p (content resp) w2 of
                                Inl e \<Rightarrow> (Inl e, w2)
                              | Inr w3 \<Rightarrow> (Inr p, w3))))
              else (Inr p, w)))"

text \<open>The command line and the environment that \<open>install\<close> passes to the child.\<close>

definition install_argv :: "installer \<Rightarrow> string \<Rightarrow> string list" where
  "install_argv self fname =
     [os_path_join (environment self) [''bin'', ''python''],
      ''-c'',
      ''import pip; pip.main(['' @ [CHR 0x27] @ ''install'' @ [CHR 0x27] @ '', ''
        @ [CHR 0x27] @ fname @ [CHR 0x27] @ ''])'']"

definition install_env :: "string \<Rightarrow> (string \<times> string) list" where
  "install_env fname = [(''PYTHONPATH'', fname)]"

definition install ::
  "('v::linorder) library \<Rightarrow> (string \<Rightarrow> response) \<Rightarrow>
   (string list \<Rightarrow> (string \<times> string) list \<Rightarrow> int option) \<Rightarrow> installer \<Rightarrow> world \<Rightarrow>
   (error + unit) \<times> world" where
  "install L net run self w =
     (case find_pip L net self default_index_url w of
        (Inl e, w1) \<Rightarrow> (Inl e, w1)
      | (Inr candidate, w1) \<Rightarrow>
          (case download L net self candidate w1 of
             (Inl e, w2) \<Rightarrow> (Inl e, w2)
           | (Inr fname, w2) \<Rightarrow>
               check_call run (install_argv self fname) (install_env fname) w2))"

text \<open>
  The block \<open>with PipInstaller(target, cache_dir=cache) as installer: installer.install()\<close>
  of \<open>create\<close> in src/pvr/cli.py: \<open>__exit__\<close> runs when the body returns and when it raises,
  and as it returns \<open>None\<close> the error of the body, if any, is raised again.
\<close>

definition with_PipInstaller ::
  "string \<Rightarrow> string option \<Rightarrow> (installer \<Rightarrow> world \<Rightarrow> (error + 'a) \<times> world) \<Rightarrow> world \<Rightarrow>
   (error + 'a) \<times> world" where
  "with_PipInstaller target cache body w =
     (let (mgr, w0) = PipInstaller_init target cache w;
          (r, w1) = body (enter mgr) w0
      in (r, exit mgr w1))"

definition create_install ::
  "('v::linorder) library \<Rightarrow> (string \<Rightarrow> response) \<Rightarrow>
   (string list \<Rightarrow> (string \<times> string) list \<Rightarrow> int option) \<Rightarrow> string \<Rightarrow> string option \<Rightarrow>
   world \<Rightarrow> (error + unit) \<times> world" where
  "create_install L net run target cache w =
     with_PipInstaller target cache (install L net run) w"

subsection \<open>An instance of the library for evaluation\<close>

text \<open>
  The theorems below hold for every library. To evaluate the installer on concrete pages
  the parameters are instantiated by functions that agree with the Python libraries on
  the inputs of the examples: URLs of the form \<open>scheme://host/path\<close>, references without
  dot segments, start tags whose attribute values are quoted and free of blanks, versions
  made of a release, an optional pre-release (\<open>aN\<close>, \<open>bN\<close>, \<open>rcN\<close>) and an optional
  \<open>.postN\<close>. The digest function is a table: the SHA-256 digest of the one URL that
  the examples download, and 64 zeros for any other string.
\<close>

definition url_has_scheme :: "string \<Rightarrow> bool" where
  "url_has_scheme u \<longleftrightarrow>
     takeWhile (\<lambda>c. c \<noteq> CHR '':'') u \<noteq> [] \<and>
     startswith (dropWhile (\<lambda>c. c \<noteq> CHR '':'') u) ''://''"

definition url_origin :: "string \<Rightarrow> string" where
  "url_origin u =
     (let scheme = takeWhile (\<lambda>c. c \<noteq> CHR '':'') u;
          host = takeWhile (\<lambda>c. c \<noteq> CHR ''/'') (drop (length scheme + 3) u)
      in scheme @ ''://'' @ host)"

definition ex_urljoin :: "string \<Rightarrow> string option \<Rightarrow> string" where
  "ex_urljoin base r =
     (case r of
        None \<Rightarrow> base
      | Some ref \<Rightarrow>
          if ref = [] then base
          else if url_has_scheme ref then ref
          else if startswith ref ''/'' then url_origin base @ ref
          else rev (dropWhile (\<lambda>c. c \<noteq> CHR ''/'') (rev base)) @ ref)"

definition ex_urlparse_path :: "string \<Rightarrow> string" where
  "ex_urlparse_path u =
     takeWhile (\<lambda>c. c \<noteq> CHR ''?'' \<and> c \<noteq> CHR ''#'')
       (if url_has_scheme u then drop (length (url_origin u)) u else u)"

definition ex_unquote :: "string \<Rightarrow> string" where
  "ex_unquote v =
     (if 2 \<le> length v \<and> hd v = CHR 0x22 \<and> last v = CHR 0x22 then butlast (tl v) else v)"

definition ex_attr :: "string \<Rightarrow> string \<times> string option" where
  "ex_attr w =
     (let name = takeWhile (\<lambda>c. c \<noteq> CHR ''='') w
      in if name = w then (name, None)
         else (name, Some (ex_unquote (drop (length name + 1) w))))"

definition ex_tag :: "string \<Rightarrow> starttag list" where
  "ex_tag chunk =
     (case filter (\<lambda>w. w \<noteq> []) (split_char CHR '' '' (takeWhile (\<lambda>c. c \<noteq> CHR ''>'') chunk)) of
        [] \<Rightarrow> []
      | name # ws \<Rightarrow>
          if hd name = CHR ''/'' \<or> hd name = CHR ''!'' then [] else [(name, map ex_attr ws)])"

definition ex_starttags :: "string \<Rightarrow> starttag list" where
  "ex_starttags text = concat (map ex_tag (tl (split_char CHR ''<'' text)))"

text \<open>
  Versions of the instance: the release without its trailing zeros, then the phase
  (0, 1, 2 for the pre-releases \<open>a\<close>, \<open>b\<close>, \<open>rc\<close>, 3 for a final release, 4 for a
  post-release) and its number, compared lexicographically.
\<close>

type_synonym ex_version = "nat list \<times> nat \<times> nat"

definition is_digit :: "char \<Rightarrow> bool" where
  "is_digit c \<longleftrightarrow> c \<in> set ''0123456789''"

definition ex_nat :: "string \<Rightarrow> nat option" where
  "ex_nat s =
     (if s \<noteq> [] \<and> list_all is_digit s
      then Some (foldl (\<lambda>n c. 10 * n + (of_char c - 48)) 0 s) else None)"

definition ex_release :: "string \<Rightarrow> nat list option" where
  "ex_release s =
     (let ns = map ex_nat (split_char CHR ''.'' s)
      in if list_all (\<lambda>n. n \<noteq> None) ns
         then Some (rev (dropWhile (\<lambda>n. n = 0) (rev (map the ns)))) else None)"

definition ex_phase :: "string \<Rightarrow> (nat \<times> nat) option" where
  "ex_phase s =
     (if s = [] then Some (3, 0)
      else if startswith s ''rc'' then map_option (Pair 2) (ex_nat (drop 2 s))
      else if startswith s ''a'' then map_option (Pair 0) (ex_nat (drop 1 s))
      else if startswith s ''b'' then map_option (Pair 1) (ex_nat (drop 1 s))
      else if startswith s ''.post'' then map_option (Pair 4) (ex_nat (drop 5 s))
      else None)"

definition ex_version_parse :: "string \<Rightarrow> ex_version option" where
  "ex_version_parse s =
     (let rel = takeWhile (\<lambda>c. is_digit c \<or> c = CHR ''.'') s;
          rel' = (if rel \<noteq> [] \<and> last rel = CHR ''.'' then butlast rel else rel)
      in case ex_release rel' of
           None \<Rightarrow> None
         | Some r \<Rightarrow> map_option (Pair r) (ex_phase (drop (length rel') s)))"

definition ex_url :: string where
  "ex_url = ''https://pypi.python.org/simple/pip/pkg-2.0.0-py3-none-any.whl''"

definition ex_key :: string where
  "ex_key = ''c02614df21dd95a86e8f928de4bc867ed25add66d345e30b2a980b5e5dbde32a''"

definition ex_sha256_hexdigest :: "string \<Rightarrow> string" where
  "ex_sha256_hexdigest s = (if s = ex_url then ex_key else replicate 64 CHR ''0'')"

definition ex_library :: "ex_version library" where
  "ex_library =
     \<lparr>urljoin = ex_urljoin, urlparse_path = ex_urlparse_path, starttags = ex_starttags,
      version_parse = ex_version_parse, sha256_hexdigest = ex_sha256_hexdigest\<rparr>"

text \<open>Index pages, servers and worlds of the examples.\<close>

definition anchor :: "string \<Rightarrow> string" where
  "anchor href = ''<a rel='' @ [CHR 0x22] @ ''internal'' @ [CHR 0x22] @ '' href='' @ [CHR 0x22]
                   @ href @ [CHR 0x22] @ ''>'' @ href @ ''</a>''"

definition page_three :: string where
  "page_three = ''<html><body>'' @ anchor ''pkg-1.0.0-py3-none-any.whl''
     @ anchor ''pkg-2.0.0-py3-none-any.whl'' @ anchor ''pkg-1.5.0rc1-py3-none-any.whl''
     @ ''</body></html>''"

definition page_tie :: string where
  "page_tie = anchor ''pkg-1.0-py3-none-any.whl'' @ anchor ''a/pkg-2.0-py3-none-any.whl''
     @ anchor ''b/pkg-2.0.0-py3-none-any.whl''"

definition page_bad_version :: string where
  "page_bad_version = anchor ''pkg-latest-py3-none-any.whl''"

definition page_no_hyphen :: string where
  "page_no_hyphen = anchor ''pip.whl''"

definition page_mixed :: string where
  "page_mixed = anchor ''pkg-1.0.0-py3-none-any.whl'' @ anchor ''pip.whl''"

definition page_tarball :: string where
  "page_tarball = anchor ''pkg-1.0.0.tar.gz''"

definition serve :: "nat \<Rightarrow> string \<Rightarrow> string \<Rightarrow> response" where
  "serve st body u = \<lparr>status_code = st, content = body\<rparr>"

text \<open>A server with the page of three wheels at the index and a wheel at every other URL.\<close>

definition ex_net :: "string \<Rightarrow> response" where
  "ex_net u =
     (if u = ''https://pypi.python.org/simple/pip/''
      then \<lparr>status_code = 200, content = page_three\<rparr>
      else \<lparr>status_code = 200, content = ''PK-wheel-bytes''\<rparr>)"

definition world0 :: world where
  "world0 = \<lparr>fs = Map.empty, log = [], session_closed = False\<rparr>"

definition ex_installer :: installer where
  "ex_installer = \<lparr>environment = ''/envs/demo'', cache_dir = Some ''/cache''\<rparr>"

definition ex_candidate :: "ex_version candidate" where
  "ex_candidate = \<lparr>version = ([2], 3, 0), url = ex_url, filename = ''pkg-2.0.0-py3-none-any.whl''\<rparr>"

definition ex_path :: string where
  "ex_path = ''/cache/'' @ ex_key @ ''/pkg-2.0.0-py3-none-any.whl''"

text \<open>
  Well-formed inputs of the cache path: a cache root that is not empty and has no trailing
  slash, a digest of 64 lower-case hexadecimal digits, as \<open>hexdigest()\<close> of SHA-256
  returns, and a filename without a slash, as \<open>posixpath.basename\<close> returns.
\<close>

definition plain_root :: "string \<Rightarrow> bool" where
  "plain_root r \<longleftrightarrow> r \<noteq> [] \<and> last r \<noteq> CHR ''/''"

definition is_hex_digest :: "string \<Rightarrow> bool" where
  "is_hex_digest h \<longleftrightarrow> length h = 64 \<and> list_all (\<lambda>c. c \<in> set ''0123456789abcdef'') h"

definition plain_filename :: "string \<Rightarrow> bool" where
  "plain_filename f \<longleftrightarrow> CHR ''/'' \<notin> set f"

definition is_Get :: "event \<Rightarrow> bool" where
  "is_Get e = (case e of Get _ \<Rightarrow> True | _ \<Rightarrow> False)"

definition is_Exec :: "event \<Rightarrow> bool" where
  "is_Exec e = (case e of Exec _ _ \<Rightarrow> True | _ \<Rightarrow> False)"

text \<open>The candidates of the page with two links of the same version.\<close>

definition tie_cands :: "ex_version candidate list" where
  "tie_cands = [\<lparr>version = ([1], 3, 0),
             url = ''https://pypi.python.org/simple/pip/pkg-1.0-py3-none-any.whl'',
             filename = ''pkg-1.0-py3-none-any.whl''\<rparr>,
           \<lparr>version = ([2], 3, 0),
             url = ''https://pypi.python.org/simple/pip/a/pkg-2.0-py3-none-any.whl'',
             filename = ''pkg-2.0-py3-none-any.whl''\<rparr>,
           \<lparr>version = ([2], 3, 0),
             url = ''https://pypi.python.org/simple/pip/b/pkg-2.0.0-py3-none-any.whl'',
             filename = ''pkg-2.0.0-py3-none-any.whl''\<rparr>]"

section \<open>Properties\<close>

subsection \<open>The link extractor\<close>

lemma rel_internal_loop_iff: "rel_internal_loop as \<longleftrightarrow> (''rel'', Some ''internal'') \<in> set as"
  by (induction as rule: rel_internal_loop.induct) auto

lemma href_loop_base: "base_url (href_loop L self as) = base_url self"
  by (induction L self as rule: href_loop.induct) auto

lemma href_loop_links:
  "links (href_loop L self as) =
     links self @ map (urljoin L (base_url self)) (map snd (filter (\<lambda>a. fst a = ''href'') as))"
  by (induction L self as rule: href_loop.induct) (auto simp: href_loop_base)

lemma handle_starttag_base: "base_url (handle_starttag L self t) = base_url self"
  by (cases t) (simp add: handle_starttag_def href_loop_base)

lemma handle_starttag_links:
  "links (handle_starttag L self t) =
     links self @ (if spec_qualifies t then map (urljoin L (base_url self)) (spec_hrefs t) else [])"
  by (cases t)
     (auto simp: handle_starttag_def spec_qualifies_def spec_hrefs_def href_loop_links
        rel_internal_loop_iff)

lemma foldl_handle_starttag_base:
  "base_url (foldl (handle_starttag L) self tags) = base_url self"
  by (induction tags arbitrary: self) (simp_all add: handle_starttag_base)

lemma foldl_handle_starttag_links:
  "links (foldl (handle_starttag L) self tags) = links self @ spec_links L (base_url self) tags"
proof (induction tags arbitrary: self)
  case Nil
  show ?case by (simp add: spec_links_def)
next
  case (Cons t tags)
  show ?case
    by (simp add: Cons.IH handle_starttag_links handle_starttag_base spec_links_def)
qed

text \<open>
  Claim C3. For every text and base URL the links of the extractor are exactly the
  \<open>href\<close> values of the anchors that carry \<open>rel="internal"\<close>, each joined to the base
  URL by \<open>urljoin\<close>, in document order. Other tags, anchors without attributes, anchors
  without \<open>rel="internal"\<close> and anchors without \<open>href\<close> contribute nothing.
\<close>

theorem link_extractor_output:
  "links (feed L (LinkExtractor_init base) text) = spec_links L base (starttags L text)"
  by (simp add: feed_def foldl_handle_starttag_links LinkExtractor_init_def)

subsection \<open>Sorting in descending order keeps the first maximal element in front\<close>

lemma last_filter_keep: "xs \<noteq> [] \<Longrightarrow> P (last xs) \<Longrightarrow> last (filter P xs) = last xs"
  by (induction xs rule: rev_induct) auto

lemma sorted_last_max:
  "sorted (map f xs) \<Longrightarrow> x \<in> set xs \<Longrightarrow> f x \<le> f (last xs)"
  by (induction xs) (auto split: if_splits)

lemma sorted_reverse_hd:
  fixes key :: "'a \<Rightarrow> 'k::linorder"
  assumes "xs \<noteq> []"
  shows "hd (sorted_reverse key xs) = hd (filter (\<lambda>x. \<forall>y\<in>set xs. key y \<le> key x) xs)"
proof -
  let ?s = "sort_key key (rev xs)"
  let ?m = "key (last ?s)"
  have ne: "?s \<noteq> []" using assms by (metis length_0_conv length_rev length_sort)
  have mx: "\<And>y. y \<in> set xs \<Longrightarrow> key y \<le> ?m"
    using sorted_last_max[of key ?s] by simp
  have lin: "last ?s \<in> set xs" using ne last_in_set[of ?s] by simp
  have eqP: "filter (\<lambda>x. \<forall>y\<in>set xs. key y \<le> key x) xs = filter (\<lambda>x. key x = ?m) xs"
    by (rule filter_cong) (use mx lin in \<open>auto intro: antisym\<close>)
  have "hd (sorted_reverse key xs) = last ?s"
    using ne by (simp add: sorted_reverse_def hd_rev)
  also have "\<dots> = last (filter (\<lambda>x. key x = ?m) ?s)"
    using ne by (simp add: last_filter_keep)
  also have "\<dots> = last (filter (\<lambda>x. key x = ?m) (rev xs))"
    by (simp only: sort_key_stable)
  also have "\<dots> = hd (filter (\<lambda>x. key x = ?m) xs)"
  proof -
    have "filter (\<lambda>x. key x = ?m) xs \<noteq> []"
      using lin by (auto simp: filter_empty_conv)
    then show ?thesis by (simp add: rev_filter[symmetric] last_rev)
  qed
  finally show ?thesis by (simp add: eqP)
qed

lemma hd_filter_first:
  "filter P xs \<noteq> [] \<Longrightarrow>
   \<exists>i<length xs. hd (filter P xs) = xs ! i \<and> P (xs ! i) \<and> (\<forall>j<i. \<not> P (xs ! j))"
proof (induction xs)
  case Nil
  then show ?case by simp
next
  case (Cons x xs)
  show ?case
  proof (cases "P x")
    case True
    then show ?thesis by (intro exI[of _ 0]) simp
  next
    case False
    with Cons obtain i where i: "i < length xs" "hd (filter P xs) = xs ! i" "P (xs ! i)"
      "\<forall>j<i. \<not> P (xs ! j)" by auto
    show ?thesis
    proof (intro exI[of _ "Suc i"] conjI allI impI)
      fix j assume "j < Suc i"
      then show "\<not> P ((x # xs) ! j)" using False i(4) by (cases j) auto
    qed (use False i in auto)
  qed
qed

subsection \<open>The loop of find\<close>

lemma split_char_length:
  "length (split_char sep s) = Suc (length (filter (\<lambda>c. c = sep) s))"
  by (induction s) (auto split: list.splits)

lemma split_char_no_sep:
  "sep \<notin> set s \<Longrightarrow> list_index (split_char sep s) (Suc 0) = Inl IndexError"
proof -
  assume "sep \<notin> set s"
  then have "filter (\<lambda>c. c = sep) s = []" by (auto simp: filter_empty_conv)
  then show ?thesis by (simp add: list_index_def split_char_length)
qed

lemma split_char_sep: "sep \<in> set s \<Longrightarrow> \<exists>tok. list_index (split_char sep s) 1 = Inr tok"
proof -
  assume "sep \<in> set s"
  then have "filter (\<lambda>c. c = sep) s \<noteq> []" by (auto simp: filter_empty_conv)
  then have "0 < length (filter (\<lambda>c. c = sep) s)" by simp
  then show ?thesis by (simp add: list_index_def split_char_length)
qed

lemma find_loop_skip:
  "\<not> is_wheel_link L link \<Longrightarrow> find_loop L (link # rest) acc = find_loop L rest acc"
  by (simp add: is_wheel_link_def Let_def)

lemma find_loop_urls:
  "find_loop L ls acc = Inr cs \<Longrightarrow> map url cs = map url acc @ filter (is_wheel_link L) ls"
proof (induction ls arbitrary: acc)
  case Nil
  then show ?case by simp
next
  case (Cons l ls)
  show ?case
  proof (cases "is_wheel_link L l")
    case False
    with Cons show ?thesis by (simp add: find_loop_skip del: find_loop.simps)
  next
    case True
    with Cons.prems obtain tok v where
      "find_loop L ls (acc @ [\<lparr>version = v, url = l, filename = basename (urlparse_path L l)\<rparr>]) = Inr cs"
      by (auto simp: is_wheel_link_def Let_def split: sum.splits option.splits)
    from Cons.IH[OF this] True show ?thesis by simp
  qed
qed

lemma find_loop_no_wheel:
  "\<forall>l\<in>set ls. \<not> is_wheel_link L l \<Longrightarrow> find_loop L ls acc = Inr acc"
  by (induction ls) (simp_all add: find_loop_skip del: find_loop.simps(2))

lemma find_loop_errors:
  "find_loop L ls acc = Inl e \<Longrightarrow> e = IndexError \<or> (\<exists>tok. e = InvalidVersion tok)"
proof (induction ls arbitrary: acc)
  case Nil
  then show ?case by simp
next
  case (Cons l ls)
  then show ?case
    by (auto simp: Let_def list_index_def split: if_splits sum.splits option.splits)
qed

lemma find_loop_first_no_hyphen:
  "filter (is_wheel_link L) ls = l # rest \<Longrightarrow> CHR ''-'' \<notin> set (basename (urlparse_path L l)) \<Longrightarrow>
   find_loop L ls acc = Inl IndexError"
proof (induction ls)
  case Nil
  then show ?case by simp
next
  case (Cons a ls)
  show ?case
  proof (cases "is_wheel_link L a")
    case False
    with Cons show ?thesis by (simp add: find_loop_skip del: find_loop.simps)
  next
    case True
    with Cons.prems have "a = l" by simp
    with True Cons.prems(2) show ?thesis
      by (simp add: is_wheel_link_def Let_def split_char_no_sep)
  qed
qed

lemma find_loop_hyphens:
  "\<forall>l\<in>set ls. is_wheel_link L l \<longrightarrow> CHR ''-'' \<in> set (basename (urlparse_path L l)) \<Longrightarrow>
   find_loop L ls acc \<noteq> Inl IndexError"
proof (induction ls arbitrary: acc)
  case Nil
  then show ?case by simp
next
  case (Cons a ls)
  show ?case
  proof (cases "is_wheel_link L a")
    case False
    with Cons show ?thesis by (simp add: find_loop_skip del: find_loop.simps)
  next
    case True
    with Cons.prems have "CHR ''-'' \<in> set (basename (urlparse_path L a))" by simp
    from split_char_sep[OF this] obtain tok where
      tok: "list_index (split_char CHR ''-'' (basename (urlparse_path L a))) 1 = Inr tok" ..
    from Cons.prems have rest: "\<forall>l\<in>set ls. is_wheel_link L l \<longrightarrow> CHR ''-'' \<in> set (basename (urlparse_path L l))"
      by simp
    show ?thesis using True tok Cons.IH[OF rest]
      by (simp add: is_wheel_link_def Let_def split: option.splits)
  qed
qed

lemma find_fst:
  "fst (find_pip L net self index_url w) =
     (case raise_for_status (net (urljoin L index_url (Some ''pip/''))) of
        Inl e \<Rightarrow> Inl e
      | Inr _ \<Rightarrow>
          (case find_loop L (index_links L net index_url) [] of
             Inl e \<Rightarrow> Inl e
           | Inr cs \<Rightarrow> if cs = [] then Inl NoAcceptableFile
                       else list_index (sorted_reverse version cs) 0))"
  by (simp add: find_pip_def index_links_def session_get_def Let_def split: sum.splits)

lemma find_snd:
  "snd (find_pip L net self index_url w) = w\<lparr>log := log w @ [Get (urljoin L index_url (Some ''pip/''))]\<rparr>"
  by (simp add: find_pip_def session_get_def Let_def split: sum.splits)

lemma raise_for_status_error: "raise_for_status r = Inl e \<Longrightarrow> e = HTTPError (status_code r)"
  by (auto simp: raise_for_status_def split: if_splits)

lemma sorted_reverse_nonempty: "cs \<noteq> [] \<Longrightarrow> sorted_reverse key cs \<noteq> []"
  by (metis length_0_conv length_rev length_sort sorted_reverse_def)

lemma list_index_first: "xs \<noteq> [] \<Longrightarrow> list_index xs 0 = Inr (hd xs)"
  by (cases xs) (simp_all add: list_index_def)

subsection \<open>The result of find\<close>

text \<open>
  When the loop over the links ends with a list of candidates that is not empty, the
  result is the first candidate of greatest version.
\<close>

lemma find_pip_of_loop:
  assumes ok: "raise_for_status (net (urljoin L index_url (Some ''pip/''))) = Inr ()"
    and loop: "find_loop L (index_links L net index_url) [] = Inr cands"
    and ne: "cands \<noteq> []"
  shows "map url cands = filter (is_wheel_link L) (index_links L net index_url) \<and>
         fst (find_pip L net self index_url w) =
           Inr (hd (filter (\<lambda>c. \<forall>c'\<in>set cands. version c' \<le> version c) cands)) \<and>
         (\<exists>i<length cands.
            fst (find_pip L net self index_url w) = Inr (cands ! i) \<and>
            (\<forall>j<length cands. version (cands ! j) \<le> version (cands ! i)) \<and>
            (\<forall>j<i. version (cands ! j) < version (cands ! i)))"
proof -
  let ?P = "\<lambda>c. \<forall>c'\<in>set cands. version c' \<le> version c"
  have urls: "map url cands = filter (is_wheel_link L) (index_links L net index_url)"
    using find_loop_urls[OF loop] by simp
  have res: "fst (find_pip L net self index_url w) = Inr (hd (filter ?P cands))"
    using ok loop ne
    by (simp add: find_fst list_index_first sorted_reverse_nonempty sorted_reverse_hd)
  have "filter ?P cands \<noteq> []"
  proof -
    have "sorted_reverse version cands \<noteq> []" using ne by (rule sorted_reverse_nonempty)
    obtain m where m: "m \<in> set cands" "\<forall>c'\<in>set cands. version c' \<le> version m"
    proof -
      have fin: "finite (version ` set cands)" and nem: "version ` set cands \<noteq> {}"
        using ne by auto
      from Max_in[OF fin nem] obtain m where "m \<in> set cands" "version m = Max (version ` set cands)"
        by auto
      moreover have "\<forall>c'\<in>set cands. version c' \<le> Max (version ` set cands)"
        using fin by auto
      ultimately show ?thesis using that by auto
    qed
    then show ?thesis by (auto simp: filter_empty_conv)
  qed
  from hd_filter_first[OF this] obtain i where i: "i < length cands"
    "hd (filter ?P cands) = cands ! i" "?P (cands ! i)" "\<forall>j<i. \<not> ?P (cands ! j)"
    by blast
  have le: "\<forall>j<length cands. version (cands ! j) \<le> version (cands ! i)"
    using i(3) by simp
  have lt: "\<forall>j<i. version (cands ! j) < version (cands ! i)"
  proof (intro allI impI)
    fix j assume j: "j < i"
    with i(4) obtain c' where c': "c' \<in> set cands" "\<not> version c' \<le> version (cands ! j)"
      by auto
    from c'(1) i(3) have "version c' \<le> version (cands ! i)" by simp
    with c'(2) show "version (cands ! j) < version (cands ! i)" by simp
  qed
  show ?thesis using urls res i(1,2) le lt by auto
qed

text \<open>
  The loop ends without an error when every link that ends in \<open>.whl\<close> has a second
  token that parses, and then every candidate carries the parsed second token of its
  filename as its version.
\<close>

lemma find_loop_complete:
  "\<forall>l\<in>set ls. is_wheel_link L l \<longrightarrow> spec_eligible L l \<Longrightarrow> \<exists>cs. find_loop L ls acc = Inr cs"
proof (induction ls arbitrary: acc)
  case Nil
  then show ?case by simp
next
  case (Cons l ls)
  from Cons.prems have rest: "\<forall>l\<in>set ls. is_wheel_link L l \<longrightarrow> spec_eligible L l" by simp
  show ?case
  proof (cases "is_wheel_link L l")
    case False
    then have "find_loop L (l # ls) acc = find_loop L ls acc" by (rule find_loop_skip)
    with Cons.IH[OF rest, of acc] show ?thesis by simp
  next
    case True
    with Cons.prems have e: "spec_eligible L l" by simp
    let ?f = "basename (urlparse_path L l)"
    let ?parts = "split_char CHR ''-'' ?f"
    from e have len: "Suc 0 < length ?parts" and pv: "version_parse L (?parts ! Suc 0) \<noteq> None"
      by (simp_all add: spec_eligible_def Let_def)
    from pv obtain v where v: "version_parse L (?parts ! Suc 0) = Some v" by auto
    from len have li: "list_index ?parts (Suc 0) = Inr (?parts ! Suc 0)"
      by (simp add: list_index_def)
    have "find_loop L (l # ls) acc =
            find_loop L ls (acc @ [\<lparr>version = v, url = l, filename = ?f\<rparr>])"
      using True li v by (simp add: is_wheel_link_def Let_def)
    with Cons.IH[OF rest, of "acc @ [\<lparr>version = v, url = l, filename = ?f\<rparr>]"]
    show ?thesis by simp
  qed
qed

lemma find_loop_versions:
  "find_loop L ls acc = Inr cs \<Longrightarrow>
   \<forall>c\<in>set acc. list_index (split_char CHR ''-'' (filename c)) 1
                    = Inr (split_char CHR ''-'' (filename c) ! 1) \<and>
                  version_parse L (split_char CHR ''-'' (filename c) ! 1) = Some (version c) \<Longrightarrow>
   \<forall>c\<in>set cs. list_index (split_char CHR ''-'' (filename c)) 1
                   = Inr (split_char CHR ''-'' (filename c) ! 1) \<and>
                 version_parse L (split_char CHR ''-'' (filename c) ! 1) = Some (version c)"
proof (induction ls arbitrary: acc)
  case Nil
  then show ?case by simp
next
  case (Cons l ls)
  show ?case
  proof (cases "is_wheel_link L l")
    case False
    with Cons.prems(1) have "find_loop L ls acc = Inr cs"
      by (simp add: find_loop_skip del: find_loop.simps)
    from Cons.IH[OF this Cons.prems(2)] show ?thesis .
  next
    case True
    let ?f = "basename (urlparse_path L l)"
    let ?parts = "split_char CHR ''-'' ?f"
    from True Cons.prems(1) obtain tok v where
      li: "list_index ?parts (Suc 0) = Inr tok" and v: "version_parse L tok = Some v" and
      step: "find_loop L ls (acc @ [\<lparr>version = v, url = l, filename = ?f\<rparr>]) = Inr cs"
      by (auto simp: is_wheel_link_def Let_def split: sum.splits option.splits)
    from li have tok: "tok = ?parts ! Suc 0" and li': "list_index ?parts (Suc 0) = Inr (?parts ! Suc 0)"
      by (auto simp: list_index_def split: if_splits)
    have "\<forall>c\<in>set (acc @ [\<lparr>version = v, url = l, filename = ?f\<rparr>]).
            list_index (split_char CHR ''-'' (filename c)) 1
              = Inr (split_char CHR ''-'' (filename c) ! 1) \<and>
            version_parse L (split_char CHR ''-'' (filename c) ! 1) = Some (version c)"
      using Cons.prems(2) li' v tok by simp
    from Cons.IH[OF step this] show ?thesis .
  qed
qed

text \<open>
  Claim C1 as stated fails: the page with the links \<open>pkg-1.0.0-py3-none-any.whl\<close> and
  \<open>pip.whl\<close> is fetched and yields one eligible candidate, yet \<open>find\<close> raises IndexError
  at the second link instead of returning that candidate.
\<close>

theorem find_bare_wheel_counterexample:
  "raise_for_status (serve 200 page_mixed (urljoin ex_library default_index_url (Some ''pip/''))) = Inr () \<and>
   filter (spec_eligible ex_library)
     (index_links ex_library (serve 200 page_mixed) default_index_url)
     = [''https://pypi.python.org/simple/pip/pkg-1.0.0-py3-none-any.whl''] \<and>
   fst (find_pip ex_library (serve 200 page_mixed) ex_installer default_index_url world0)
     = Inl IndexError"
  by code_simp

text \<open>
  Claim C1, amended. When the index page is fetched without an error status, every
  extracted link whose filename ends in \<open>.whl\<close> has a second hyphen-delimited token that
  parses as a version, and there is at least one such link, \<open>find\<close> returns a candidate:
  the candidates are those links in extraction order, each with the parsed second token
  of its filename as version, and the result is the candidate with the greatest version;
  among the candidates with that version it is the first in extraction order.
\<close>

theorem find_returns_first_maximal:
  assumes ok: "raise_for_status (net (urljoin L index_url (Some ''pip/''))) = Inr ()"
    and elig: "\<forall>l\<in>set (index_links L net index_url). is_wheel_link L l \<longrightarrow> spec_eligible L l"
    and some: "filter (is_wheel_link L) (index_links L net index_url) \<noteq> []"
  shows "\<exists>cands.
           find_loop L (index_links L net index_url) [] = Inr cands \<and> cands \<noteq> [] \<and>
           map url cands = filter (is_wheel_link L) (index_links L net index_url) \<and>
           (\<forall>c\<in>set cands.
              version_parse L (split_char CHR ''-'' (filename c) ! 1) = Some (version c)) \<and>
           fst (find_pip L net self index_url w) =
             Inr (hd (filter (\<lambda>c. \<forall>c'\<in>set cands. version c' \<le> version c) cands)) \<and>
           (\<exists>i<length cands.
              fst (find_pip L net self index_url w) = Inr (cands ! i) \<and>
              (\<forall>j<length cands. version (cands ! j) \<le> version (cands ! i)) \<and>
              (\<forall>j<i. version (cands ! j) < version (cands ! i)))"
proof -
  from find_loop_complete[OF elig, of "[]"] obtain cands where
    loop: "find_loop L (index_links L net index_url) [] = Inr cands" by blast
  from find_loop_urls[OF loop]
  have urls: "map url cands = filter (is_wheel_link L) (index_links L net index_url)" by simp
  with some have ne: "cands \<noteq> []" by auto
  from find_loop_versions[OF loop]
  have vers: "\<forall>c\<in>set cands.
      version_parse L (split_char CHR ''-'' (filename c) ! 1) = Some (version c)"
    by simp
  from find_pip_of_loop[OF ok loop ne, of self w]
  have sel: "fst (find_pip L net self index_url w) =
             Inr (hd (filter (\<lambda>c. \<forall>c'\<in>set cands. version c' \<le> version c) cands)) \<and>
           (\<exists>i<length cands.
              fst (find_pip L net self index_url w) = Inr (cands ! i) \<and>
              (\<forall>j<length cands. version (cands ! j) \<le> version (cands ! i)) \<and>
              (\<forall>j<i. version (cands ! j) < version (cands ! i)))"
    by blast
  from loop ne urls vers sel show ?thesis by blast
qed

theorem find_returns_first_maximal_witness:
  "raise_for_status (serve 200 page_tie (urljoin ex_library default_index_url (Some ''pip/''))) = Inr () \<and>
   list_all (spec_eligible ex_library)
     (filter (is_wheel_link ex_library)
        (index_links ex_library (serve 200 page_tie) default_index_url)) \<and>
   length (filter (is_wheel_link ex_library)
        (index_links ex_library (serve 200 page_tie) default_index_url)) = 3 \<and>
   fst (find_pip ex_library (serve 200 page_tie) ex_installer default_index_url world0)
     = Inr (tie_cands ! 1)"
proof -
  let ?links = "index_links ex_library (serve 200 page_tie) default_index_url"
  have h1: "raise_for_status (serve 200 page_tie (urljoin ex_library default_index_url (Some ''pip/''))) = Inr ()"
    by code_simp
  have h2: "list_all (spec_eligible ex_library) (filter (is_wheel_link ex_library) ?links)"
    by code_simp
  then have elig: "\<forall>l\<in>set ?links. is_wheel_link ex_library l \<longrightarrow> spec_eligible ex_library l"
    by (simp add: list_all_iff)
  have h3: "length (filter (is_wheel_link ex_library) ?links) = 3" by code_simp
  then have some: "filter (is_wheel_link ex_library) ?links \<noteq> []" by auto
  have l: "find_loop ex_library ?links [] = Inr tie_cands" by code_simp
  have h4: "hd (filter (\<lambda>c. \<forall>c'\<in>set tie_cands. version c' \<le> version c) tie_cands) = tie_cands ! 1"
    by code_simp
  from find_returns_first_maximal[where L = ex_library and net = "serve 200 page_tie"
      and index_url = default_index_url and self = ex_installer and w = world0, OF h1 elig some]
  obtain cands where c: "find_loop ex_library ?links [] = Inr cands" and
    r: "fst (find_pip ex_library (serve 200 page_tie) ex_installer default_index_url world0) =
          Inr (hd (filter (\<lambda>c. \<forall>c'\<in>set cands. version c' \<le> version c) cands))"
    by blast
  from c l have "cands = tie_cands" by simp
  with r h4 have res: "fst (find_pip ex_library (serve 200 page_tie) ex_installer default_index_url world0)
      = Inr (tie_cands ! 1)"
    by simp
  from h1 h2 h3 res show ?thesis by (intro conjI)
qed

text \<open>The example of the specification: of 1.0.0, 2.0.0 and 1.5.0rc1 the wheel 2.0.0 is chosen.\<close>

lemma find_example_three:
  "fst (find_pip ex_library ex_net ex_installer default_index_url world0) = Inr ex_candidate"
  by code_simp

text \<open>
  Claim C2 as stated fails: a page whose only wheel has a version token that does not
  parse has no eligible candidate in the sense of the claim, and \<open>find\<close> raises
  InvalidVersion instead of NoAcceptableFile.
\<close>

theorem find_bad_version_counterexample:
  "filter (spec_eligible ex_library)
     (index_links ex_library (serve 200 page_bad_version) default_index_url) = [] \<and>
   fst (find_pip ex_library (serve 200 page_bad_version) ex_installer default_index_url world0)
     = Inl (InvalidVersion ''latest'')"
  by code_simp

text \<open>
  Claim C2, amended. \<open>find\<close> fails with NoAcceptableFile exactly when the index page is
  fetched without an error status and no extracted link has a filename that ends in
  \<open>.whl\<close>: the suffix alone decides, the version token filters nothing.
\<close>

theorem find_no_acceptable_file_iff:
  "fst (find_pip L net self index_url w) = Inl NoAcceptableFile \<longleftrightarrow>
     raise_for_status (net (urljoin L index_url (Some ''pip/''))) = Inr () \<and>
     (\<forall>l\<in>set (index_links L net index_url). \<not> is_wheel_link L l)"
proof (cases "raise_for_status (net (urljoin L index_url (Some ''pip/'')))")
  case (Inl e)
  then show ?thesis
    using raise_for_status_error[OF Inl] by (simp add: find_fst)
next
  case (Inr u)
  show ?thesis
  proof (cases "\<forall>l\<in>set (index_links L net index_url). \<not> is_wheel_link L l")
    case True
    then show ?thesis using Inr by (simp add: find_fst find_loop_no_wheel)
  next
    case False
    then have wheel: "filter (is_wheel_link L) (index_links L net index_url) \<noteq> []"
      by (auto simp: filter_empty_conv)
    show ?thesis
    proof (cases "find_loop L (index_links L net index_url) []")
      case (Inl e)
      with find_loop_errors[OF Inl] Inr False show ?thesis by (auto simp: find_fst)
    next
      case loop: (Inr cs)
      from find_loop_urls[OF loop] wheel have "cs \<noteq> []" by auto
      then show ?thesis using Inr loop False
        by (simp add: find_fst list_index_first sorted_reverse_nonempty)
    qed
  qed
qed

theorem find_no_acceptable_file_iff_witness:
  "raise_for_status (serve 200 page_tarball (urljoin ex_library default_index_url (Some ''pip/''))) = Inr () \<and>
   filter (is_wheel_link ex_library)
     (index_links ex_library (serve 200 page_tarball) default_index_url) = [] \<and>
   index_links ex_library (serve 200 page_tarball) default_index_url \<noteq> [] \<and>
   fst (find_pip ex_library (serve 200 page_tarball) ex_installer default_index_url world0) = Inl NoAcceptableFile"
proof -
  have h1: "raise_for_status (serve 200 page_tarball (urljoin ex_library default_index_url (Some ''pip/''))) = Inr ()"
    by code_simp
  have h2: "filter (is_wheel_link ex_library)
     (index_links ex_library (serve 200 page_tarball) default_index_url) = []"
    by code_simp
  then have h2': "\<forall>l\<in>set (index_links ex_library (serve 200 page_tarball) default_index_url).
      \<not> is_wheel_link ex_library l"
    by (simp add: filter_empty_conv)
  have h3: "index_links ex_library (serve 200 page_tarball) default_index_url \<noteq> []"
    by code_simp
  from find_no_acceptable_file_iff[of ex_library "serve 200 page_tarball" ex_installer
      default_index_url world0] h1 h2'
  have "fst (find_pip ex_library (serve 200 page_tarball) ex_installer default_index_url world0)
          = Inl NoAcceptableFile"
    by blast
  with h1 h2 h3 show ?thesis by blast
qed

text \<open>
  Claim C9. When the first extracted link whose filename ends in \<open>.whl\<close> has no hyphen in
  that filename, \<open>find\<close> raises IndexError at \<open>wheel_parts[1]\<close>; when every such filename
  contains a hyphen, \<open>find\<close> never raises IndexError.
\<close>

theorem find_index_error:
  assumes ok: "raise_for_status (net (urljoin L index_url (Some ''pip/''))) = Inr ()"
  shows "(\<forall>l rest. filter (is_wheel_link L) (index_links L net index_url) = l # rest \<and>
                   CHR ''-'' \<notin> set (basename (urlparse_path L l)) \<longrightarrow>
            fst (find_pip L net self index_url w) = Inl IndexError) \<and>
         ((\<forall>l\<in>set (index_links L net index_url).
              is_wheel_link L l \<longrightarrow> CHR ''-'' \<in> set (basename (urlparse_path L l))) \<longrightarrow>
            fst (find_pip L net self index_url w) \<noteq> Inl IndexError)"
proof (intro conjI allI impI)
  fix l rest
  assume "filter (is_wheel_link L) (index_links L net index_url) = l # rest \<and>
          CHR ''-'' \<notin> set (basename (urlparse_path L l))"
  then have "find_loop L (index_links L net index_url) [] = Inl IndexError"
    using find_loop_first_no_hyphen by blast
  then show "fst (find_pip L net self index_url w) = Inl IndexError"
    using ok by (simp add: find_fst)
next
  assume "\<forall>l\<in>set (index_links L net index_url).
            is_wheel_link L l \<longrightarrow> CHR ''-'' \<in> set (basename (urlparse_path L l))"
  from find_loop_hyphens[OF this]
  have nie: "find_loop L (index_links L net index_url) [] \<noteq> Inl IndexError" .
  show "fst (find_pip L net self index_url w) \<noteq> Inl IndexError"
  proof (cases "find_loop L (index_links L net index_url) []")
    case (Inl e)
    with nie ok show ?thesis by (simp add: find_fst)
  next
    case (Inr cs)
    with ok show ?thesis
      by (simp add: find_fst list_index_first sorted_reverse_nonempty)
  qed
qed

theorem find_index_error_witness:
  "raise_for_status (serve 200 page_no_hyphen (urljoin ex_library default_index_url (Some ''pip/''))) = Inr () \<and>
   filter (is_wheel_link ex_library) (index_links ex_library (serve 200 page_no_hyphen) default_index_url)
     = [''https://pypi.python.org/simple/pip/pip.whl''] \<and>
   CHR ''-'' \<notin> set (basename (urlparse_path ex_library ''https://pypi.python.org/simple/pip/pip.whl'')) \<and>
   fst (find_pip ex_library (serve 200 page_no_hyphen) ex_installer default_index_url world0) = Inl IndexError \<and>
   raise_for_status (ex_net (urljoin ex_library default_index_url (Some ''pip/''))) = Inr () \<and>
   list_all (\<lambda>l. CHR ''-'' \<in> set (basename (urlparse_path ex_library l)))
     (filter (is_wheel_link ex_library) (index_links ex_library ex_net default_index_url)) \<and>
   length (filter (is_wheel_link ex_library) (index_links ex_library ex_net default_index_url)) = 3 \<and>
   fst (find_pip ex_library ex_net ex_installer default_index_url world0) \<noteq> Inl IndexError"
proof -
  have h1: "raise_for_status (serve 200 page_no_hyphen (urljoin ex_library default_index_url (Some ''pip/''))) = Inr ()"
    by code_simp
  have h2: "filter (is_wheel_link ex_library) (index_links ex_library (serve 200 page_no_hyphen) default_index_url)
     = [''https://pypi.python.org/simple/pip/pip.whl'']"
    by code_simp
  have h3: "CHR ''-'' \<notin> set (basename (urlparse_path ex_library ''https://pypi.python.org/simple/pip/pip.whl''))"
    by code_simp
  have g1: "raise_for_status (ex_net (urljoin ex_library default_index_url (Some ''pip/''))) = Inr ()"
    by code_simp
  have g2: "list_all (\<lambda>l. CHR ''-'' \<in> set (basename (urlparse_path ex_library l)))
     (filter (is_wheel_link ex_library) (index_links ex_library ex_net default_index_url))"
    by code_simp
  then have g2': "\<forall>l\<in>set (index_links ex_library ex_net default_index_url).
      is_wheel_link ex_library l \<longrightarrow> CHR ''-'' \<in> set (basename (urlparse_path ex_library l))"
    by (simp add: list_all_iff)
  have g3: "length (filter (is_wheel_link ex_library) (index_links ex_library ex_net default_index_url)) = 3"
    by code_simp
  from find_index_error[where L = ex_library and net = "serve 200 page_no_hyphen"
      and index_url = default_index_url and self = ex_installer and w = world0] h1 h2 h3
  have a: "fst (find_pip ex_library (serve 200 page_no_hyphen) ex_installer default_index_url world0) = Inl IndexError"
    by blast
  from find_index_error[where L = ex_library and net = ex_net
      and index_url = default_index_url and self = ex_installer and w = world0] g1 g2'
  have b: "fst (find_pip ex_library ex_net ex_installer default_index_url world0) \<noteq> Inl IndexError"
    by blast
  from h1 h2 h3 a g1 g2 g3 b show ?thesis by blast
qed

subsection \<open>The cache path\<close>

lemma endswith_slash: "p \<noteq> [] \<Longrightarrow> endswith p ''/'' \<longleftrightarrow> last p = CHR ''/''"
proof -
  assume ne: "p \<noteq> []"
  then obtain q x where p: "p = q @ [x]" by (metis rev_exhaust)
  then show ?thesis by (simp add: endswith_def)
qed

lemma startswith_slash: "startswith b ''/'' \<longleftrightarrow> b \<noteq> [] \<and> hd b = CHR ''/''"
  by (cases b) (auto simp: startswith_def)

lemma is_hex_digest_plain:
  assumes "is_hex_digest h"
  shows "h \<noteq> [] \<and> CHR ''/'' \<notin> set h"
proof
  from assms have "length h = 64" by (simp add: is_hex_digest_def)
  then have "length h \<noteq> 0" by simp
  then show "h \<noteq> []" by simp
  from assms have "\<forall>c\<in>set h. c \<in> set ''0123456789abcdef''"
    by (simp add: is_hex_digest_def list_all_iff)
  moreover have "CHR ''/'' \<notin> set ''0123456789abcdef''" by simp
  ultimately show "CHR ''/'' \<notin> set h" by blast
qed

lemma cache_path_plain:
  assumes "plain_root root" "is_hex_digest (sha256_hexdigest L (url c))" "plain_filename (filename c)"
  shows "cache_path L root c = root @ ''/'' @ sha256_hexdigest L (url c) @ ''/'' @ filename c"
proof -
  let ?k = "sha256_hexdigest L (url c)"
  from is_hex_digest_plain[OF assms(2)] have k: "?k \<noteq> []" "CHR ''/'' \<notin> set ?k" by auto
  have "hd ?k \<in> set ?k" "last ?k \<in> set ?k" using k(1) by simp_all
  with k(2) have hk: "hd ?k \<noteq> CHR ''/''" "last ?k \<noteq> CHR ''/''" by metis+
  have s1: "join_step root ?k = root @ ''/'' @ ?k"
    using assms(1) k hk by (simp add: join_step_def startswith_slash endswith_slash plain_root_def)
  have f: "\<not> startswith (filename c) ''/''"
  proof
    assume "startswith (filename c) ''/''"
    then have "filename c \<noteq> []" "hd (filename c) = CHR ''/''"
      by (simp_all add: startswith_slash)
    with hd_in_set[of "filename c"] have "CHR ''/'' \<in> set (filename c)" by simp
    with assms(3) show False by (simp add: plain_filename_def)
  qed
  have "\<not> endswith (root @ ''/'' @ ?k) ''/''"
    using k hk by (simp add: endswith_slash)
  then have s2: "join_step (root @ ''/'' @ ?k) (filename c) = root @ ''/'' @ ?k @ ''/'' @ filename c"
    using f by (simp add: join_step_def)
  show ?thesis
    unfolding cache_path_def cache_key_def os_path_join_def
    by (simp only: foldl_Cons foldl_Nil s1 s2)
qed

lemma dirname_plain:
  assumes "d \<noteq> []" "last d \<noteq> CHR ''/''" "CHR ''/'' \<notin> set f"
  shows "dirname (d @ ''/'' @ f) = d"
proof -
  have r: "rev (d @ ''/'' @ f) = rev f @ (CHR ''/'' # rev d)" by simp
  have "dropWhile (\<lambda>c. c \<noteq> CHR ''/'') (rev f @ (CHR ''/'' # rev d))
          = dropWhile (\<lambda>c. c \<noteq> CHR ''/'') (CHR ''/'' # rev d)"
    using assms(3) by (intro dropWhile_append2) auto
  then have dw: "dropWhile (\<lambda>c. c \<noteq> CHR ''/'') (rev f @ (CHR ''/'' # rev d)) = CHR ''/'' # rev d"
    by simp
  have head: "rev (dropWhile (\<lambda>c. c \<noteq> CHR ''/'') (rev (d @ ''/'' @ f))) = d @ ''/''"
  proof -
    have "dropWhile (\<lambda>c. c \<noteq> CHR ''/'') (rev (d @ ''/'' @ f)) = CHR ''/'' # rev d"
      by (subst r) (rule dw)
    then have "rev (dropWhile (\<lambda>c. c \<noteq> CHR ''/'') (rev (d @ ''/'' @ f))) = rev (CHR ''/'' # rev d)"
      by (rule arg_cong)
    also have "rev (CHR ''/'' # rev d) = d @ ''/''" by simp
    finally show ?thesis .
  qed
  from assms(1) obtain q x where d: "d = q @ [x]" by (metis rev_exhaust)
  with assms(2) have x: "x \<noteq> CHR ''/''" by simp
  have nall: "\<not> list_all (\<lambda>c. c = CHR ''/'') (d @ ''/'')"
    using x by (simp add: d)
  have strip: "rev (dropWhile (\<lambda>c. c = CHR ''/'') (rev (d @ ''/''))) = d"
    using x by (simp add: d)
  have ne: "d @ ''/'' \<noteq> []" by simp
  have "dirname (d @ ''/'' @ f) =
          (if d @ ''/'' \<noteq> [] \<and> \<not> list_all (\<lambda>c. c = CHR ''/'') (d @ ''/'')
           then rev (dropWhile (\<lambda>c. c = CHR ''/'') (rev (d @ ''/''))) else d @ ''/'')"
    unfolding dirname_def Let_def head ..
  also have "\<dots> = d" using nall strip ne by (simp only: simp_thms if_True)
  finally show ?thesis .
qed

text \<open>
  Claim C5. The cache key is the SHA-256 hex digest of the URL of the candidate. For a
  cache root that is not empty and has no trailing slash, a digest of 64 hexadecimal
  digits and a filename without a slash, the cache path is root, slash, key, slash,
  filename. What follows the root is the same under two roots and is made of the digest
  of the URL and of the filename only; two different roots give two different directories.
\<close>

theorem cache_path_layout:
  assumes r1: "plain_root r1" and r2: "plain_root r2"
    and key: "is_hex_digest (sha256_hexdigest L (url c))"
    and fname: "plain_filename (filename c)"
  shows "cache_key L c = sha256_hexdigest L (url c) \<and>
         cache_path L r1 c = r1 @ ''/'' @ cache_key L c @ ''/'' @ filename c \<and>
         cache_path L r2 c = r2 @ ''/'' @ cache_key L c @ ''/'' @ filename c \<and>
         drop (length r1 + 1) (cache_path L r1 c) = drop (length r2 + 1) (cache_path L r2 c) \<and>
         dirname (cache_path L r1 c) = r1 @ ''/'' @ cache_key L c \<and>
         dirname (cache_path L r2 c) = r2 @ ''/'' @ cache_key L c \<and>
         (r1 \<noteq> r2 \<longrightarrow> dirname (cache_path L r1 c) \<noteq> dirname (cache_path L r2 c))"
proof -
  let ?k = "sha256_hexdigest L (url c)"
  from is_hex_digest_plain[OF key] have k: "?k \<noteq> []" "CHR ''/'' \<notin> set ?k" by auto
  have "last ?k \<in> set ?k" using k(1) by simp
  with k(2) have lk: "last ?k \<noteq> CHR ''/''" by metis
  have c1: "cache_key L c = ?k" by (simp add: cache_key_def)
  have p1: "cache_path L r1 c = r1 @ ''/'' @ ?k @ ''/'' @ filename c"
    by (rule cache_path_plain[OF r1 key fname])
  have p2: "cache_path L r2 c = r2 @ ''/'' @ ?k @ ''/'' @ filename c"
    by (rule cache_path_plain[OF r2 key fname])
  have d: "dirname (r @ ''/'' @ ?k @ ''/'' @ filename c) = r @ ''/'' @ ?k" for r :: string
  proof -
    have "dirname ((r @ ''/'' @ ?k) @ ''/'' @ filename c) = r @ ''/'' @ ?k"
      using k lk fname by (intro dirname_plain) (auto simp: plain_filename_def)
    then show ?thesis by (simp only: append_assoc)
  qed
  have d1: "dirname (cache_path L r1 c) = r1 @ ''/'' @ ?k" by (simp only: p1 d)
  have d2: "dirname (cache_path L r2 c) = r2 @ ''/'' @ ?k" by (simp only: p2 d)
  have rel: "drop (length r1 + 1) (cache_path L r1 c) = drop (length r2 + 1) (cache_path L r2 c)"
    by (simp add: p1 p2)
  have iso: "r1 \<noteq> r2 \<longrightarrow> dirname (cache_path L r1 c) \<noteq> dirname (cache_path L r2 c)"
    by (simp add: d1 d2)
  show ?thesis unfolding c1 using p1 p2 rel d1 d2 iso by blast
qed

theorem cache_path_layout_witness:
  "plain_root ''/cache'' \<and> plain_root ''/var/tmp/other'' \<and>
   is_hex_digest (sha256_hexdigest ex_library (url ex_candidate)) \<and>
   plain_filename (filename ex_candidate) \<and>
   cache_path ex_library ''/cache'' ex_candidate = ex_path \<and>
   dirname (cache_path ex_library ''/cache'' ex_candidate)
     \<noteq> dirname (cache_path ex_library ''/var/tmp/other'' ex_candidate)"
proof -
  have h1: "plain_root ''/cache''" by code_simp
  have h2: "plain_root ''/var/tmp/other''" by code_simp
  have h3: "is_hex_digest (sha256_hexdigest ex_library (url ex_candidate))" by code_simp
  have h4: "plain_filename (filename ex_candidate)" by code_simp
  have e: "''/cache'' @ ''/'' @ cache_key ex_library ex_candidate @ ''/'' @ filename ex_candidate = ex_path"
    by code_simp
  have ne: "''/cache'' \<noteq> ''/var/tmp/other''" by simp
  note t = cache_path_layout[OF h1 h2 h3 h4]
  from t have a: "cache_path ex_library ''/cache'' ex_candidate
      = ''/cache'' @ ''/'' @ cache_key ex_library ex_candidate @ ''/'' @ filename ex_candidate"
    by (elim conjE)
  from t ne have b: "dirname (cache_path ex_library ''/cache'' ex_candidate)
     \<noteq> dirname (cache_path ex_library ''/var/tmp/other'' ex_candidate)"
    by (elim conjE impE)
  from a e have c: "cache_path ex_library ''/cache'' ex_candidate = ex_path" by (rule trans)
  from h1 h2 h3 h4 c b show ?thesis by (intro conjI)
qed

text \<open>
  The candidates that \<open>find\<close> returns meet the condition on the filename: it is the
  \<open>basename\<close> of the path of the URL, so it has no slash, and it ends in \<open>.whl\<close>.
\<close>

lemma basename_plain: "plain_filename (basename p)"
proof -
  have "CHR ''/'' \<notin> set (takeWhile (\<lambda>c. c \<noteq> CHR ''/'') (rev p))"
    using set_takeWhileD[of "CHR ''/''" "\<lambda>c. c \<noteq> CHR ''/''" "rev p"] by blast
  then show ?thesis by (simp add: plain_filename_def basename_def)
qed

lemma find_loop_filenames:
  "find_loop L ls acc = Inr cs \<Longrightarrow>
   \<forall>c\<in>set acc. filename c = basename (urlparse_path L (url c)) \<Longrightarrow>
   \<forall>c\<in>set cs. filename c = basename (urlparse_path L (url c))"
proof (induction ls arbitrary: acc)
  case Nil
  then show ?case by simp
next
  case (Cons l ls)
  show ?case
  proof (cases "is_wheel_link L l")
    case False
    with Cons.prems(1) have "find_loop L ls acc = Inr cs"
      by (simp add: find_loop_skip del: find_loop.simps)
    from Cons.IH[OF this Cons.prems(2)] show ?thesis .
  next
    case True
    with Cons.prems(1) obtain v where
      step: "find_loop L ls (acc @ [\<lparr>version = v, url = l, filename = basename (urlparse_path L l)\<rparr>]) = Inr cs"
      by (auto simp: is_wheel_link_def Let_def split: sum.splits option.splits)
    have "\<forall>c\<in>set (acc @ [\<lparr>version = v, url = l, filename = basename (urlparse_path L l)\<rparr>]).
            filename c = basename (urlparse_path L (url c))"
      using Cons.prems(2) by simp
    from Cons.IH[OF step this] show ?thesis .
  qed
qed

lemma find_pip_result_filename:
  assumes "fst (find_pip L net self index_url w) = Inr c"
  shows "filename c = basename (urlparse_path L (url c)) \<and> plain_filename (filename c) \<and>
         endswith (filename c) ''.whl'' \<and> url c \<in> set (index_links L net index_url)"
proof -
  from assms obtain u where ok: "raise_for_status (net (urljoin L index_url (Some ''pip/''))) = Inr u"
    by (cases "raise_for_status (net (urljoin L index_url (Some ''pip/'')))")
       (simp_all add: find_fst)
  from assms ok obtain cs where loop: "find_loop L (index_links L net index_url) [] = Inr cs"
    by (cases "find_loop L (index_links L net index_url) []") (simp_all add: find_fst)
  from assms ok loop have ne: "cs \<noteq> []" and c: "c = hd (sorted_reverse version cs)"
    by (auto simp: find_fst list_index_first sorted_reverse_nonempty split: if_splits)
  have "hd (sorted_reverse version cs) \<in> set (sorted_reverse version cs)"
    using ne by (simp add: sorted_reverse_nonempty)
  then have mem: "c \<in> set cs" by (simp add: c sorted_reverse_def)
  from find_loop_filenames[OF loop] mem
  have f: "filename c = basename (urlparse_path L (url c))" by simp
  from mem have "url c \<in> set (map url cs)" by simp
  then have "url c \<in> set (filter (is_wheel_link L) (index_links L net index_url))"
    using find_loop_urls[OF loop] by simp
  then have "is_wheel_link L (url c)" "url c \<in> set (index_links L net index_url)" by simp_all
  then show ?thesis using f basename_plain[of "urlparse_path L (url c)"]
    by (simp add: is_wheel_link_def)
qed

subsection \<open>The branches of download\<close>

lemma download_hit:
  "cache_dir self = Some root \<Longrightarrow> os_path_exists (fs w) (cache_path L root c) \<Longrightarrow>
   download L net self c w = (Inr (cache_path L root c), w)"
  by (simp add: download_def Let_def)

lemma download_miss_error:
  "cache_dir self = Some root \<Longrightarrow> \<not> os_path_exists (fs w) (cache_path L root c) \<Longrightarrow>
   raise_for_status (net (url c)) = Inl e \<Longrightarrow>
   download L net self c w = (Inl e, w\<lparr>log := log w @ [Get (url c)]\<rparr>)"
  by (simp add: download_def session_get_def Let_def)

lemma makedirs_step:
  assumes "(if \<not> os_path_exists (fs w1) d then os_makedirs d w1 else Inr w1) = Inr w2"
  shows "(w2 = w1 \<or> w2 = w1\<lparr>fs := (fs w1)(d \<mapsto> Dir), log := log w1 @ [Makedirs d]\<rparr>) \<and>
         session_closed w2 = session_closed w1"
  using assms by (auto simp: os_makedirs_def split: if_splits)

lemma open_write_step:
  assumes "open_write p data w2 = Inr w3"
  shows "w3 = w2\<lparr>fs := (fs w2)(p \<mapsto> File data), log := log w2 @ [Write p data]\<rparr>"
  using assms by (auto simp: open_write_def split: if_splits)

lemma download_miss_success:
  assumes root: "cache_dir self = Some root"
    and miss: "\<not> os_path_exists (fs w) (cache_path L root c)"
    and ok: "fst (download L net self c w) = Inr p"
  shows "p = cache_path L root c \<and>
         raise_for_status (net (url c)) = Inr () \<and>
         fs (snd (download L net self c w)) p = Some (File (content (net (url c)))) \<and>
         (log (snd (download L net self c w)) =
            log w @ [Get (url c), Write p (content (net (url c)))] \<or>
          log (snd (download L net self c w)) =
            log w @ [Get (url c), Makedirs (dirname p), Write p (content (net (url c)))]) \<and>
         session_closed (snd (download L net self c w)) = session_closed w"
proof -
  let ?p = "cache_path L root c"
  let ?w1 = "w\<lparr>log := log w @ [Get (url c)]\<rparr>"
  let ?body = "content (net (url c))"
  let ?m = "if \<not> os_path_exists (fs ?w1) (dirname ?p) then os_makedirs (dirname ?p) ?w1 else Inr ?w1"
  have d: "download L net self c w =
      (case raise_for_status (net (url c)) of
         Inl e \<Rightarrow> (Inl e, ?w1)
       | Inr _ \<Rightarrow>
           (case ?m of
              Inl e \<Rightarrow> (Inl e, ?w1)
            | Inr w2 \<Rightarrow>
                (case open_write ?p ?body w2 of
                   Inl e \<Rightarrow> (Inl e, w2)
                 | Inr w3 \<Rightarrow> (Inr ?p, w3))))"
    using root miss by (simp add: download_def session_get_def Let_def)
  from ok obtain u where rs: "raise_for_status (net (url c)) = Inr u"
    by (cases "raise_for_status (net (url c))") (simp_all add: d)
  from ok rs obtain w2 where m: "?m = Inr w2"
    by (cases ?m) (simp_all add: d)
  from ok rs m obtain w3 where ow: "open_write ?p ?body w2 = Inr w3"
    by (cases "open_write ?p ?body w2") (simp_all add: d)
  have res: "download L net self c w = (Inr ?p, w3)"
    by (simp only: d rs m ow sum.case)
  from makedirs_step[OF m]
  have w2: "w2 = ?w1 \<or> w2 = ?w1\<lparr>fs := (fs ?w1)(dirname ?p \<mapsto> Dir), log := log ?w1 @ [Makedirs (dirname ?p)]\<rparr>"
    and sc: "session_closed w2 = session_closed ?w1" by simp_all
  note w3 = open_write_step[OF ow]
  have p: "p = ?p" using ok res by simp
  have a: "fs w3 ?p = Some (File ?body)" by (subst w3) simp
  have b: "log w3 = log w @ [Get (url c), Write ?p ?body] \<or>
           log w3 = log w @ [Get (url c), Makedirs (dirname ?p), Write ?p ?body]"
    using w2 by (subst (1 2) w3) auto
  have c: "session_closed w3 = session_closed w" using sc by (subst w3) simp
  show ?thesis using p a b c rs by (simp add: res)
qed

lemma download_root:
  "fst (download L net self c w) = Inr p \<Longrightarrow> cache_dir self \<noteq> None"
  by (cases "cache_dir self") (simp_all add: download_def)

subsection \<open>The results of download\<close>

text \<open>
  Claim C7. When \<open>download\<close> returns a path, that path is the join of the cache root, the
  key and the filename (literally root, slash, key, slash, filename for well-formed
  inputs), \<open>os.path.exists\<close> holds of it in the resulting file system, a cache hit leaves
  the world as it was, and after a cache miss the path holds a regular file whose content
  is the body of the response to the GET of the URL of the candidate.
\<close>

theorem download_returns_cached_file:
  assumes root: "cache_dir self = Some root"
    and ok: "fst (download L net self c w) = Inr p"
  shows "p = os_path_join root [sha256_hexdigest L (url c), filename c] \<and>
         (plain_root root \<and> is_hex_digest (sha256_hexdigest L (url c)) \<and> plain_filename (filename c)
            \<longrightarrow> p = root @ ''/'' @ sha256_hexdigest L (url c) @ ''/'' @ filename c) \<and>
         os_path_exists (fs (snd (download L net self c w))) p \<and>
         (os_path_exists (fs w) p \<longrightarrow> snd (download L net self c w) = w) \<and>
         (\<not> os_path_exists (fs w) p \<longrightarrow>
            fs (snd (download L net self c w)) p = Some (File (content (net (url c)))))"
proof -
  let ?p = "cache_path L root c"
  have p: "p = ?p"
  proof (cases "os_path_exists (fs w) ?p")
    case True
    from download_hit[OF root True] ok show ?thesis by simp
  next
    case False
    from download_miss_success[OF root False ok] show ?thesis by simp
  qed
  have j: "p = os_path_join root [sha256_hexdigest L (url c), filename c]"
    by (simp add: p cache_path_def cache_key_def)
  have lit: "plain_root root \<and> is_hex_digest (sha256_hexdigest L (url c)) \<and> plain_filename (filename c)
            \<longrightarrow> p = root @ ''/'' @ sha256_hexdigest L (url c) @ ''/'' @ filename c"
    using cache_path_plain[of root L c] by (simp only: p) blast
  have hit: "os_path_exists (fs w) p \<longrightarrow> snd (download L net self c w) = w"
    using download_hit[OF root, of w L c net] by (simp add: p)
  have miss: "\<not> os_path_exists (fs w) p \<longrightarrow>
            fs (snd (download L net self c w)) p = Some (File (content (net (url c))))"
    using download_miss_success[OF root _ ok] by (simp add: p)
  have ex: "os_path_exists (fs (snd (download L net self c w))) p"
  proof (cases "os_path_exists (fs w) p")
    case True
    with hit show ?thesis by simp
  next
    case False
    with miss show ?thesis by (simp add: os_path_exists_def)
  qed
  from j lit ex hit miss show ?thesis by (intro conjI)
qed

theorem download_returns_cached_file_witness:
  "cache_dir ex_installer = Some ''/cache'' \<and>
   fst (download ex_library ex_net ex_installer ex_candidate world0) = Inr ex_path \<and>
   \<not> os_path_exists (fs world0) ex_path \<and>
   os_path_exists (fs (snd (download ex_library ex_net ex_installer ex_candidate world0))) ex_path \<and>
   fs (snd (download ex_library ex_net ex_installer ex_candidate world0)) ex_path
     = Some (File (content (ex_net (url ex_candidate))))"
proof -
  have h1: "cache_dir ex_installer = Some ''/cache''" by code_simp
  have h2: "fst (download ex_library ex_net ex_installer ex_candidate world0) = Inr ex_path"
    by code_simp
  have h3: "\<not> os_path_exists (fs world0) ex_path" by code_simp
  note t = download_returns_cached_file[OF h1 h2]
  from t have a: "os_path_exists (fs (snd (download ex_library ex_net ex_installer ex_candidate world0))) ex_path"
    by blast
  from t h3 have b: "fs (snd (download ex_library ex_net ex_installer ex_candidate world0)) ex_path
     = Some (File (content (ex_net (url ex_candidate))))"
    by blast
  from h1 h2 h3 a b show ?thesis by (intro conjI)
qed

text \<open>
  Claim C4. After a first call that misses the cache and returns, a second call with the
  same candidate returns the same path and leaves the world unchanged, whatever the
  server would answer: no GET, no directory creation, no write. The log of the two calls
  holds exactly one GET more than before, and the file at the path holds the body of the
  response to the first call.
\<close>

theorem download_twice:
  assumes root: "cache_dir self = Some root"
    and miss: "\<not> os_path_exists (fs w) (cache_path L root c)"
    and first: "fst (download L net1 self c w) = Inr p"
  shows "download L net2 self c (snd (download L net1 self c w))
           = (Inr p, snd (download L net1 self c w)) \<and>
         filter is_Get (log (snd (download L net1 self c w))) = filter is_Get (log w) @ [Get (url c)] \<and>
         fs (snd (download L net1 self c w)) p = Some (File (content (net1 (url c))))"
proof -
  let ?w1 = "snd (download L net1 self c w)"
  note s = download_miss_success[OF root miss first]
  from s have p: "p = cache_path L root c" by blast
  from s have f: "fs ?w1 p = Some (File (content (net1 (url c))))" by blast
  then have "os_path_exists (fs ?w1) (cache_path L root c)"
    by (simp add: os_path_exists_def p)
  from download_hit[OF root this]
  have second: "download L net2 self c ?w1 = (Inr p, ?w1)" by (simp add: p)
  from s have "log ?w1 = log w @ [Get (url c), Write p (content (net1 (url c)))] \<or>
      log ?w1 = log w @ [Get (url c), Makedirs (dirname p), Write p (content (net1 (url c)))]"
    by blast
  then have g: "filter is_Get (log ?w1) = filter is_Get (log w) @ [Get (url c)]"
    by (auto simp: is_Get_def)
  from second g f show ?thesis by (intro conjI)
qed

theorem download_twice_witness:
  "cache_dir ex_installer = Some ''/cache'' \<and>
   \<not> os_path_exists (fs world0) (cache_path ex_library ''/cache'' ex_candidate) \<and>
   fst (download ex_library ex_net ex_installer ex_candidate world0) = Inr ex_path \<and>
   download ex_library (serve 500 []) ex_installer ex_candidate
       (snd (download ex_library ex_net ex_installer ex_candidate world0))
     = (Inr ex_path, snd (download ex_library ex_net ex_installer ex_candidate world0)) \<and>
   filter is_Get (log (snd (download ex_library ex_net ex_installer ex_candidate world0)))
     = filter is_Get (log world0) @ [Get (url ex_candidate)]"
proof -
  have h1: "cache_dir ex_installer = Some ''/cache''" by code_simp
  have h2: "\<not> os_path_exists (fs world0) (cache_path ex_library ''/cache'' ex_candidate)"
    by code_simp
  have h3: "fst (download ex_library ex_net ex_installer ex_candidate world0) = Inr ex_path"
    by code_simp
  note t = download_twice[OF h1 h2 h3, of "serve 500 []"]
  from t have a: "download ex_library (serve 500 []) ex_installer ex_candidate
       (snd (download ex_library ex_net ex_installer ex_candidate world0))
     = (Inr ex_path, snd (download ex_library ex_net ex_installer ex_candidate world0))"
    by blast
  from t have b: "filter is_Get (log (snd (download ex_library ex_net ex_installer ex_candidate world0)))
     = filter is_Get (log world0) @ [Get (url ex_candidate)]"
    by blast
  from h1 h2 h3 a b show ?thesis by (intro conjI)
qed

text \<open>
  Claim C6 as stated fails: a response with status 304 is not in the 2xx range, yet
  \<open>raise_for_status\<close> does not raise for it, and \<open>download\<close> creates the directory,
  writes the body and returns the path.
\<close>

theorem download_not_modified_counterexample:
  "status_code (serve 304 ''stale'' (url ex_candidate)) = 304 \<and>
   \<not> os_path_exists (fs world0) ex_path \<and>
   fst (download ex_library (serve 304 ''stale'') ex_installer ex_candidate world0) = Inr ex_path \<and>
   fs (snd (download ex_library (serve 304 ''stale'') ex_installer ex_candidate world0)) ex_path
     = Some (File ''stale'')"
  by code_simp

text \<open>
  Claim C6, amended. On a cache miss, if the response to the GET has an error status,
  400 to 599, \<open>download\<close> fails with HTTPError, the file system is unchanged and the log
  gains the GET only: no directory is created and no file is written.
\<close>

theorem download_http_error:
  assumes root: "cache_dir self = Some root"
    and miss: "\<not> os_path_exists (fs w) (cache_path L root c)"
    and err: "400 \<le> status_code (net (url c))" "status_code (net (url c)) < 600"
  shows "fst (download L net self c w) = Inl (HTTPError (status_code (net (url c)))) \<and>
         fs (snd (download L net self c w)) = fs w \<and>
         log (snd (download L net self c w)) = log w @ [Get (url c)]"
proof -
  from err have "raise_for_status (net (url c)) = Inl (HTTPError (status_code (net (url c))))"
    by (simp add: raise_for_status_def)
  with download_miss_error[where self = self and root = root and w = w and L = L and c = c
      and net = net and e = "HTTPError (status_code (net (url c)))"] root miss
  have "download L net self c w =
      (Inl (HTTPError (status_code (net (url c)))), w\<lparr>log := log w @ [Get (url c)]\<rparr>)"
    by blast
  then show ?thesis by simp
qed

theorem download_http_error_witness:
  "cache_dir ex_installer = Some ''/cache'' \<and>
   \<not> os_path_exists (fs world0) (cache_path ex_library ''/cache'' ex_candidate) \<and>
   400 \<le> status_code (serve 404 ''gone'' (url ex_candidate)) \<and>
   status_code (serve 404 ''gone'' (url ex_candidate)) < 600 \<and>
   fst (download ex_library (serve 404 ''gone'') ex_installer ex_candidate world0)
     = Inl (HTTPError 404) \<and>
   fs (snd (download ex_library (serve 404 ''gone'') ex_installer ex_candidate world0)) = fs world0"
proof -
  have h1: "cache_dir ex_installer = Some ''/cache''" by code_simp
  have h2: "\<not> os_path_exists (fs world0) (cache_path ex_library ''/cache'' ex_candidate)"
    by code_simp
  have h3: "400 \<le> status_code (serve 404 ''gone'' (url ex_candidate))" by code_simp
  have h4: "status_code (serve 404 ''gone'' (url ex_candidate)) < 600" by code_simp
  have e: "status_code (serve 404 ''gone'' (url ex_candidate)) = 404" by code_simp
  note t = download_http_error[where self = ex_installer and root = "''/cache''" and w = world0
      and L = ex_library and c = ex_candidate and net = "serve 404 ''gone''", OF h1 h2 h3 h4]
  from t have a: "fst (download ex_library (serve 404 ''gone'') ex_installer ex_candidate world0)
     = Inl (HTTPError 404)"
    by (simp only: e)
  from t have b: "fs (snd (download ex_library (serve 404 ''gone'') ex_installer ex_candidate world0)) = fs world0"
    by blast
  from h1 h2 h3 h4 a b show ?thesis by (intro conjI)
qed

subsection \<open>install\<close>

lemma download_exec_log:
  assumes "fst (download L net self c w) = Inr p"
  shows "filter is_Exec (log (snd (download L net self c w))) = filter is_Exec (log w)"
proof -
  from download_root[OF assms] obtain root where root: "cache_dir self = Some root" by auto
  show ?thesis
  proof (cases "os_path_exists (fs w) (cache_path L root c)")
    case True
    from download_hit[OF root True] show ?thesis by simp
  next
    case False
    from download_miss_success[OF root False assms]
    have "log (snd (download L net self c w)) =
            log w @ [Get (url c), Write p (content (net (url c)))] \<or>
          log (snd (download L net self c w)) =
            log w @ [Get (url c), Makedirs (dirname p), Write p (content (net (url c)))]"
      by blast
    then show ?thesis by (auto simp: is_Exec_def)
  qed
qed

lemma find_exec_log:
  "filter is_Exec (log (snd (find_pip L net self index_url w))) = filter is_Exec (log w)"
  by (simp add: find_snd is_Exec_def)

lemma install_success_inv:
  assumes "fst (install L net run self w) = Inr u"
  shows "\<exists>cand path.
           fst (find_pip L net self default_index_url w) = Inr cand \<and>
           fst (download L net self cand (snd (find_pip L net self default_index_url w))) = Inr path"
proof (cases "find_pip L net self default_index_url w")
  case f: (Pair r1 w1)
  show ?thesis
  proof (cases r1)
    case (Inl e)
    with f assms show ?thesis by (simp add: install_def)
  next
    case cand: (Inr cand)
    show ?thesis
    proof (cases "download L net self cand w1")
      case d: (Pair r2 w2)
      show ?thesis
      proof (cases r2)
        case (Inl e)
        with f cand d assms show ?thesis by (simp add: install_def)
      next
        case (Inr path)
        with f cand d show ?thesis by simp
      qed
    qed
  qed
qed

lemma install_result:
  assumes f: "fst (find_pip L net self default_index_url w) = Inr cand"
    and d: "fst (download L net self cand (snd (find_pip L net self default_index_url w))) = Inr path"
  shows "install L net run self w =
           check_call run (install_argv self path) (install_env path)
             (snd (download L net self cand (snd (find_pip L net self default_index_url w))))"
proof -
  obtain w1 where f': "find_pip L net self default_index_url w = (Inr cand, w1)"
    using f by (cases "find_pip L net self default_index_url w") simp
  then have w1: "snd (find_pip L net self default_index_url w) = w1" by simp
  obtain w2 where d': "download L net self cand w1 = (Inr path, w2)"
    using d unfolding w1 by (cases "download L net self cand w1") simp
  show ?thesis by (simp add: install_def f' d')
qed

lemma check_call_fst:
  "fst (check_call run argv env w) =
     (case run argv env of None \<Rightarrow> Inl SpawnError
      | Some rc \<Rightarrow> if rc = 0 then Inr () else Inl (CalledProcessError rc))"
  by (simp add: check_call_def Let_def split: option.splits)

lemma check_call_log:
  "log (snd (check_call run argv env w)) = log w @ [Exec argv env]"
  by (simp add: check_call_def Let_def split: option.splits)

lemma install_exec_once:
  assumes f: "fst (find_pip L net self default_index_url w) = Inr cand"
    and d: "fst (download L net self cand (snd (find_pip L net self default_index_url w))) = Inr path"
  shows "filter is_Exec (log (snd (install L net run self w)))
           = filter is_Exec (log w) @ [Exec (install_argv self path) (install_env path)]"
  by (simp add: install_result[OF f d] check_call_log download_exec_log[OF d] find_exec_log
        is_Exec_def)

lemma python_path_plain:
  assumes "plain_root env"
  shows "os_path_join env [''bin'', ''python''] = env @ ''/bin/python''"
proof -
  have s1: "join_step env ''bin'' = env @ ''/bin''"
    using assms by (simp add: join_step_def startswith_def endswith_slash plain_root_def)
  have "\<not> endswith (env @ ''/bin'') ''/''" by (simp add: endswith_def)
  then have s2: "join_step (env @ ''/bin'') ''python'' = (env @ ''/bin'') @ ''/python''"
    by (simp add: join_step_def startswith_def)
  have "os_path_join env [''bin'', ''python''] = (env @ ''/bin'') @ ''/python''"
    unfolding os_path_join_def by (simp only: foldl_Cons foldl_Nil s1 s2)
  then show ?thesis by simp
qed

text \<open>
  Claim C8. A run of \<open>install\<close> that succeeds has found a candidate, downloaded it to a
  path, and started the child exactly once, with exit status 0. The command line is the
  join of the environment, \<open>bin\<close> and \<open>python\<close> (the environment followed by
  \<open>/bin/python\<close> for an environment path without trailing slash), \<open>-c\<close>, and a program
  text that contains the path; the environment of the child is \<open>PYTHONPATH\<close> set to the
  path. When the child exits with a status other than 0, \<open>install\<close> fails with
  CalledProcessError and the child has still been started exactly once.
\<close>

theorem install_invokes_installer_once:
  "(fst (install L net run self w) = Inr () \<longrightarrow>
      (\<exists>cand path.
         fst (find_pip L net self default_index_url w) = Inr cand \<and>
         fst (download L net self cand (snd (find_pip L net self default_index_url w))) = Inr path \<and>
         run (install_argv self path) (install_env path) = Some 0 \<and>
         filter is_Exec (log (snd (install L net run self w)))
           = filter is_Exec (log w) @ [Exec (install_argv self path) (install_env path)])) \<and>
   (\<forall>cand path rc.
      fst (find_pip L net self default_index_url w) = Inr cand \<and>
      fst (download L net self cand (snd (find_pip L net self default_index_url w))) = Inr path \<and>
      run (install_argv self path) (install_env path) = Some rc \<longrightarrow>
        fst (install L net run self w) = (if rc = 0 then Inr () else Inl (CalledProcessError rc)) \<and>
        filter is_Exec (log (snd (install L net run self w)))
          = filter is_Exec (log w) @ [Exec (install_argv self path) (install_env path)]) \<and>
   (\<forall>path.
      install_argv self path =
        [os_path_join (environment self) [''bin'', ''python''], ''-c'',
         ''import pip; pip.main(['' @ [CHR 0x27] @ ''install'' @ [CHR 0x27] @ '', ''
           @ [CHR 0x27] @ path @ [CHR 0x27] @ ''])''] \<and>
      install_env path = [(''PYTHONPATH'', path)]) \<and>
   (plain_root (environment self) \<longrightarrow>
      os_path_join (environment self) [''bin'', ''python''] = environment self @ ''/bin/python'')"
proof (intro conjI allI impI)
  assume ok: "fst (install L net run self w) = Inr ()"
  from install_success_inv[OF ok] obtain cand path where
    f: "fst (find_pip L net self default_index_url w) = Inr cand" and
    d: "fst (download L net self cand (snd (find_pip L net self default_index_url w))) = Inr path"
    by blast
  from ok have "run (install_argv self path) (install_env path) = Some 0"
    by (simp add: install_result[OF f d] check_call_fst split: option.splits if_splits)
  with f d install_exec_once[OF f d, of run]
  show "\<exists>cand path.
         fst (find_pip L net self default_index_url w) = Inr cand \<and>
         fst (download L net self cand (snd (find_pip L net self default_index_url w))) = Inr path \<and>
         run (install_argv self path) (install_env path) = Some 0 \<and>
         filter is_Exec (log (snd (install L net run self w)))
           = filter is_Exec (log w) @ [Exec (install_argv self path) (install_env path)]"
    by blast
next
  fix cand path rc
  assume a: "fst (find_pip L net self default_index_url w) = Inr cand \<and>
      fst (download L net self cand (snd (find_pip L net self default_index_url w))) = Inr path \<and>
      run (install_argv self path) (install_env path) = Some rc"
  then have f: "fst (find_pip L net self default_index_url w) = Inr cand"
    and d: "fst (download L net self cand (snd (find_pip L net self default_index_url w))) = Inr path"
    and r: "run (install_argv self path) (install_env path) = Some rc" by simp_all
  show "fst (install L net run self w) = (if rc = 0 then Inr () else Inl (CalledProcessError rc))"
    by (simp add: install_result[OF f d] check_call_fst r)
  show "filter is_Exec (log (snd (install L net run self w)))
          = filter is_Exec (log w) @ [Exec (install_argv self path) (install_env path)]"
    by (rule install_exec_once[OF f d])
next
  fix path
  show "install_argv self path =
        [os_path_join (environment self) [''bin'', ''python''], ''-c'',
         ''import pip; pip.main(['' @ [CHR 0x27] @ ''install'' @ [CHR 0x27] @ '', ''
           @ [CHR 0x27] @ path @ [CHR 0x27] @ ''])'']"
    by (simp add: install_argv_def)
  show "install_env path = [(''PYTHONPATH'', path)]" by (simp add: install_env_def)
next
  assume "plain_root (environment self)"
  then show "os_path_join (environment self) [''bin'', ''python''] = environment self @ ''/bin/python''"
    by (rule python_path_plain)
qed

theorem install_invokes_installer_once_witness:
  "fst (find_pip ex_library ex_net ex_installer default_index_url world0) = Inr ex_candidate \<and>
   fst (download ex_library ex_net ex_installer ex_candidate
          (snd (find_pip ex_library ex_net ex_installer default_index_url world0))) = Inr ex_path \<and>
   fst (install ex_library ex_net (\<lambda>argv env. Some 0) ex_installer world0) = Inr () \<and>
   filter is_Exec (log (snd (install ex_library ex_net (\<lambda>argv env. Some 0) ex_installer world0)))
     = filter is_Exec (log world0) @ [Exec (install_argv ex_installer ex_path) (install_env ex_path)] \<and>
   fst (install ex_library ex_net (\<lambda>argv env. Some 1) ex_installer world0)
     = Inl (CalledProcessError 1) \<and>
   filter is_Exec (log (snd (install ex_library ex_net (\<lambda>argv env. Some 1) ex_installer world0)))
     = filter is_Exec (log world0) @ [Exec (install_argv ex_installer ex_path) (install_env ex_path)] \<and>
   plain_root (environment ex_installer) \<and>
   os_path_join (environment ex_installer) [''bin'', ''python''] = environment ex_installer @ ''/bin/python''"
proof -
  have f: "fst (find_pip ex_library ex_net ex_installer default_index_url world0) = Inr ex_candidate"
    by code_simp
  have d: "fst (download ex_library ex_net ex_installer ex_candidate
          (snd (find_pip ex_library ex_net ex_installer default_index_url world0))) = Inr ex_path"
    by code_simp
  have pr: "plain_root (environment ex_installer)" by code_simp
  have r0: "(\<lambda>argv env. Some (0::int)) (install_argv ex_installer ex_path) (install_env ex_path) = Some 0"
    by simp
  have r1: "(\<lambda>argv env. Some (1::int)) (install_argv ex_installer ex_path) (install_env ex_path) = Some 1"
    by simp
  note t0 = install_invokes_installer_once[where L = ex_library and net = ex_net
      and run = "\<lambda>argv env. Some 0" and self = ex_installer and w = world0]
  note t1 = install_invokes_installer_once[where L = ex_library and net = ex_net
      and run = "\<lambda>argv env. Some 1" and self = ex_installer and w = world0]
  from t0 f d r0 have a:
    "fst (install ex_library ex_net (\<lambda>argv env. Some 0) ex_installer world0)
       = (if (0::int) = 0 then Inr () else Inl (CalledProcessError 0)) \<and>
     filter is_Exec (log (snd (install ex_library ex_net (\<lambda>argv env. Some 0) ex_installer world0)))
       = filter is_Exec (log world0) @ [Exec (install_argv ex_installer ex_path) (install_env ex_path)]"
    by blast
  from t1 f d r1 have b:
    "fst (install ex_library ex_net (\<lambda>argv env. Some 1) ex_installer world0)
       = (if (1::int) = 0 then Inr () else Inl (CalledProcessError 1)) \<and>
     filter is_Exec (log (snd (install ex_library ex_net (\<lambda>argv env. Some 1) ex_installer world0)))
       = filter is_Exec (log world0) @ [Exec (install_argv ex_installer ex_path) (install_env ex_path)]"
    by blast
  from t0 pr have c:
    "os_path_join (environment ex_installer) [''bin'', ''python''] = environment ex_installer @ ''/bin/python''"
    by blast
  from a have a1: "fst (install ex_library ex_net (\<lambda>argv env. Some 0) ex_installer world0) = Inr ()"
    by simp
  from b have b1: "fst (install ex_library ex_net (\<lambda>argv env. Some 1) ex_installer world0)
      = Inl (CalledProcessError 1)"
    by simp
  from a have a2: "filter is_Exec (log (snd (install ex_library ex_net (\<lambda>argv env. Some 0) ex_installer world0)))
       = filter is_Exec (log world0) @ [Exec (install_argv ex_installer ex_path) (install_env ex_path)]"
    by (rule conjunct2)
  from b have b2: "filter is_Exec (log (snd (install ex_library ex_net (\<lambda>argv env. Some 1) ex_installer world0)))
       = filter is_Exec (log world0) @ [Exec (install_argv ex_installer ex_path) (install_env ex_path)]"
    by (rule conjunct2)
  from f d a1 a2 b1 b2 pr c show ?thesis by (intro conjI)
qed

subsection \<open>The session is closed when the block is left\<close>

lemma with_PipInstaller_unfold:
  "with_PipInstaller target cache body w =
     (fst (body \<lparr>environment = target, cache_dir = cache\<rparr> (w\<lparr>session_closed := False\<rparr>)),
      (snd (body \<lparr>environment = target, cache_dir = cache\<rparr> (w\<lparr>session_closed := False\<rparr>)))
        \<lparr>log := log (snd (body \<lparr>environment = target, cache_dir = cache\<rparr>
                               (w\<lparr>session_closed := False\<rparr>))) @ [Close],
         session_closed := True\<rparr>)"
  by (simp add: with_PipInstaller_def PipInstaller_init_def enter_def exit_def close_def
        split: prod.splits)

text \<open>
  Claim C10. Whatever the body of the \<open>with\<close> block returns or raises, and in particular
  for \<open>install\<close> as the body, leaving the block runs \<open>close\<close>: the session is closed in the
  resulting world, \<open>Close\<close> is the last effect in the log, and the result or the error
  of the body is passed on unchanged.
\<close>

theorem session_released_on_every_exit:
  "session_closed (snd (with_PipInstaller target cache body w)) \<and>
   log (snd (with_PipInstaller target cache body w))
     = log (snd (body \<lparr>environment = target, cache_dir = cache\<rparr> (w\<lparr>session_closed := False\<rparr>)))
         @ [Close] \<and>
   fst (with_PipInstaller target cache body w)
     = fst (body \<lparr>environment = target, cache_dir = cache\<rparr> (w\<lparr>session_closed := False\<rparr>)) \<and>
   session_closed (snd (create_install L net run target cache w)) \<and>
   log (snd (create_install L net run target cache w))
     = log (snd (install L net run \<lparr>environment = target, cache_dir = cache\<rparr>
                   (w\<lparr>session_closed := False\<rparr>))) @ [Close] \<and>
   fst (create_install L net run target cache w)
     = fst (install L net run \<lparr>environment = target, cache_dir = cache\<rparr>
              (w\<lparr>session_closed := False\<rparr>))"
  by (simp add: with_PipInstaller_unfold create_install_def)

theorem session_released_on_every_exit_witness:
  "fst (create_install ex_library (serve 503 []) (\<lambda>argv env. Some 0) ''/envs/demo''
          (Some ''/cache'') world0) = Inl (HTTPError 503) \<and>
   session_closed (snd (create_install ex_library (serve 503 []) (\<lambda>argv env. Some 0) ''/envs/demo''
          (Some ''/cache'') world0)) \<and>
   fst (create_install ex_library ex_net (\<lambda>argv env. Some 2) ''/envs/demo''
          (Some ''/cache'') world0) = Inl (CalledProcessError 2) \<and>
   session_closed (snd (create_install ex_library ex_net (\<lambda>argv env. Some 2) ''/envs/demo''
          (Some ''/cache'') world0)) \<and>
   fst (create_install ex_library ex_net (\<lambda>argv env. Some 0) ''/envs/demo''
          (Some ''/cache'') world0) = Inr () \<and>
   session_closed (snd (create_install ex_library ex_net (\<lambda>argv env. Some 0) ''/envs/demo''
          (Some ''/cache'') world0))"
proof -
  have e1: "fst (create_install ex_library (serve 503 []) (\<lambda>argv env. Some 0) ''/envs/demo''
          (Some ''/cache'') world0) = Inl (HTTPError 503)"
    by code_simp
  have e2: "fst (create_install ex_library ex_net (\<lambda>argv env. Some 2) ''/envs/demo''
          (Some ''/cache'') world0) = Inl (CalledProcessError 2)"
    by code_simp
  have e3: "fst (create_install ex_library ex_net (\<lambda>argv env. Some 0) ''/envs/demo''
          (Some ''/cache'') world0) = Inr ()"
    by code_simp
  have c1: "session_closed (snd (create_install ex_library (serve 503 []) (\<lambda>argv env. Some 0)
          ''/envs/demo'' (Some ''/cache'') world0))"
    using session_released_on_every_exit[where L = ex_library and net = "serve 503 []"
        and run = "\<lambda>argv env. Some 0" and target = "''/envs/demo''" and cache = "Some ''/cache''"
        and w = world0 and body = "install ex_library (serve 503 []) (\<lambda>argv env. Some 0)"]
    by blast
  have c2: "session_closed (snd (create_install ex_library ex_net (\<lambda>argv env. Some 2)
          ''/envs/demo'' (Some ''/cache'') world0))"
    using session_released_on_every_exit[where L = ex_library and net = ex_net
        and run = "\<lambda>argv env. Some 2" and target = "''/envs/demo''" and cache = "Some ''/cache''"
        and w = world0 and body = "install ex_library ex_net (\<lambda>argv env. Some 2)"]
    by blast
  have c3: "session_closed (snd (create_install ex_library ex_net (\<lambda>argv env. Some 0)
          ''/envs/demo'' (Some ''/cache'') world0))"
    using session_released_on_every_exit[where L = ex_library and net = ex_net
        and run = "\<lambda>argv env. Some 0" and target = "''/envs/demo''" and cache = "Some ''/cache''"
        and w = world0 and body = "install ex_library ex_net (\<lambda>argv env. Some 0)"]
    by blast
  from e1 c1 e2 c2 e3 c3 show ?thesis by (intro conjI)
qed

end
